theory Spec2Isabelle
  imports Main "HOL-Library.AList"
begin

section \<open>Data model\<close>

text \<open>
  The records follow the interfaces of the type declarations (\<^verbatim>\<open>Task\<close>,
  \<^verbatim>\<open>AcceptanceCriterion\<close>, \<^verbatim>\<open>TaskHistoryEntry\<close>, \<^verbatim>\<open>Sequence\<close>,
  \<^verbatim>\<open>BacklogConfig\<close>). An optional field \<^verbatim>\<open>f?: T\<close> is a field of type
  \<open>T option\<close>, with \<open>None\<close> for \<^verbatim>\<open>undefined\<close>. The field \<^verbatim>\<open>id\<close> is called
  \<open>task_id\<close>, since \<open>id\<close> is the identity function of HOL; the fields of the smaller
  records carry a prefix, since a field name is a constant and can be declared once.
\<close>

text \<open>
  A JavaScript \<^verbatim>\<open>Date\<close> is its time value: a number of milliseconds, or NaN for an
  invalid date. A relational comparison of two dates compares the time values, and
  every comparison with NaN is false.
\<close>

datatype Date = InvalidDate | Time int

fun dateGt :: "Date \<Rightarrow> Date \<Rightarrow> bool" where
  "dateGt (Time a) (Time b) = (b < a)"
| "dateGt _ _ = False"

fun dateGe :: "Date \<Rightarrow> Date \<Rightarrow> bool" where
  "dateGe (Time a) (Time b) = (b \<le> a)"
| "dateGe _ _ = False"

fun isValidDate :: "Date \<Rightarrow> bool" where
  "isValidDate (Time _) = True"
| "isValidDate InvalidDate = False"

record AcceptanceCriterion =
  ac_index :: int
  ac_text :: string
  ac_checked :: bool

record TaskHistoryEntry =
  h_updatedAt :: string
  h_description :: string
  h_author :: string
  h_status :: string

datatype Priority = high | medium | low

datatype Source = local | remote | completed | local_branch

record Task =
  task_id :: string
  title :: string
  status :: string
  assignee :: "string list"
  reporter :: "string option"
  createdDate :: string
  updatedDate :: "string option"
  labels :: "string list"
  milestone :: "string option"
  dependencies :: "string list"
  rawContent :: "string option"
  description :: "string option"
  implementationPlan :: "string option"
  implementationNotes :: "string option"
  acceptanceCriteriaItems :: "AcceptanceCriterion list option"
  parentTaskId :: "string option"
  subtasks :: "string list option"
  priority :: "Priority option"
  branch :: "string option"
  ordinal :: "int option"
  filePath :: "string option"
  lastModified :: "Date option"
  source :: "Source option"
  onStatusChange :: "string option"
  branchName :: "string option"
  gitTag :: "string option"
  prNumber :: "string option"
  history :: "TaskHistoryEntry list option"

record Sequence =
  seq_index :: nat
  seq_tasks :: "Task list"

text \<open>
  \<^verbatim>\<open>BranchTaskStateEntry\<close> is declared in the task loader; the field list is the one
  of the object literal that \<^verbatim>\<open>buildLatestStateMap\<close> builds. The \<^verbatim>\<open>type\<close> field is a
  string at run time and is compared with the literal \<^verbatim>\<open>"task"\<close>.
\<close>

record BranchTaskStateEntry =
  entry_id :: string
  entry_type :: string
  entry_branch :: string
  entry_path :: string
  entry_lastModified :: Date

datatype Strategy = most_recent | most_progressed

record BacklogConfig =
  statuses :: "string list"
  defaultStatus :: "string option"
  taskResolutionStrategy :: "Strategy option"
  autoCommit :: "bool option"
  zeroPaddedIds :: "int option"
  checkActiveBranches :: "bool option"
  cfg_onStatusChange :: "string option"

text \<open>Every \<^verbatim>\<open>throw new Error(...)\<close> of the modelled functions is a constructor.\<close>

datatype error =
    LoadingCancelled
  | TaskIdRequired
  | TargetStatusRequired
  | OrderedTaskIdsEmpty
  | MovedTaskNotInOrder
  | DuplicateTaskId string
  | TaskNotFoundWhileReordering string
  | TaskInOtherBranch string string
  | IndexMissing
  | TaskNotFound string
  | TitleEmpty
  | InvalidStatus string
  | InvalidPriority string
  | OrdinalNegative
  | DependenciesDoNotExist "string list"
  | CriterionNotFound "int list"

section \<open>JavaScript containers\<close>

text \<open>
  A \<^verbatim>\<open>Map\<close> keeps its entries in insertion order; \<^verbatim>\<open>set\<close> on a key that is present
  replaces the value in place, and on a new key appends the entry. This is an
  association list with \<^const>\<open>AList.update\<close>. \<^verbatim>\<open>new Map(entries)\<close> sets the entries
  one after the other, and \<^verbatim>\<open>Array.from(m.values())\<close> lists the values in insertion order.
\<close>

type_synonym ('k, 'v) JsMap = "('k \<times> 'v) list"

definition Map_get :: "('k, 'v) JsMap \<Rightarrow> 'k \<Rightarrow> 'v option" where
  "Map_get m k = map_of m k"

definition Map_set :: "'k \<Rightarrow> 'v \<Rightarrow> ('k, 'v) JsMap \<Rightarrow> ('k, 'v) JsMap" where
  "Map_set k v m = AList.update k v m"

definition Map_new :: "('k \<times> 'v) list \<Rightarrow> ('k, 'v) JsMap" where
  "Map_new entries = fold (\<lambda>(k, v) m. Map_set k v m) entries []"

definition Map_values :: "('k, 'v) JsMap \<Rightarrow> 'v list" where
  "Map_values m = map snd m"

text \<open>\<^verbatim>\<open>Array.prototype.indexOf\<close>: the first position of the element, or \<open>-1\<close>.\<close>

fun indexOf :: "'a list \<Rightarrow> 'a \<Rightarrow> int" where
  "indexOf [] x = -1"
| "indexOf (y # ys) x =
     (if x = y then 0 else (let i = indexOf ys x in if i < 0 then -1 else i + 1))"

text \<open>A string is truthy when it is not empty; an optional string when it is present and not empty.\<close>

fun truthy :: "string option \<Rightarrow> bool" where
  "truthy None = False"
| "truthy (Some s) = (s \<noteq> [])"

section \<open>Conflict resolver\<close>

text \<open>
  Modelled from the spec: \<^verbatim>\<open>resolveTaskConflict\<close> of the task loader, which is not among
  the sources. Section 4.2 of the specification: with \<^verbatim>\<open>most_recent\<close> the record with the later
  \<^verbatim>\<open>lastModified\<close>/\<^verbatim>\<open>updatedDate\<close> (falling back to \<^verbatim>\<open>createdDate\<close>) wins outright; with
  \<^verbatim>\<open>most_progressed\<close> the record whose status is further along in the configured status
  list wins, and ties fall back to \<^verbatim>\<open>most_recent\<close>; a status that is not in the list is
  least progressed. The resolver selects one whole record. The specification does not say
  which record is returned when neither is later than the other; \<open>tieKeepsExisting\<close>
  covers both choices (the first argument, the current winner, or the second, the
  candidate). \<open>parseDate\<close> stands for \<^verbatim>\<open>new Date(string)\<close>.
\<close>

definition statusRank :: "string list \<Rightarrow> string \<Rightarrow> int" where
  "statusRank statusOrder s = indexOf statusOrder s"

definition taskTimestamp :: "(string \<Rightarrow> Date) \<Rightarrow> Task \<Rightarrow> Date" where
  "taskTimestamp parseDate t =
     (case lastModified t of
        Some d \<Rightarrow> d
      | None \<Rightarrow> (case updatedDate t of
                   Some u \<Rightarrow> parseDate u
                 | None \<Rightarrow> parseDate (createdDate t)))"

definition mostRecent :: "bool \<Rightarrow> (string \<Rightarrow> Date) \<Rightarrow> Task \<Rightarrow> Task \<Rightarrow> Task" where
  "mostRecent tieKeepsExisting parseDate a b =
     (if dateGt (taskTimestamp parseDate a) (taskTimestamp parseDate b) then a
      else if dateGt (taskTimestamp parseDate b) (taskTimestamp parseDate a) then b
      else if tieKeepsExisting then a else b)"

definition resolveTaskConflict ::
  "bool \<Rightarrow> (string \<Rightarrow> Date) \<Rightarrow> Task \<Rightarrow> Task \<Rightarrow> string list \<Rightarrow> Strategy \<Rightarrow> Task" where
  "resolveTaskConflict tieKeepsExisting parseDate a b statusOrder strategy =
     (case strategy of
        most_recent \<Rightarrow> mostRecent tieKeepsExisting parseDate a b
      | most_progressed \<Rightarrow>
          (if statusRank statusOrder (status b) < statusRank statusOrder (status a) then a
           else if statusRank statusOrder (status a) < statusRank statusOrder (status b) then b
           else mostRecent tieKeepsExisting parseDate a b))"

section \<open>Merge engine\<close>

text \<open>
  The two loops of \<^verbatim>\<open>loadTasks\<close> (and of \<^verbatim>\<open>loadAllTasksForStatistics\<close>) have the same
  body: a task whose id is new is inserted, and otherwise the current winner and the task
  are resolved and the result stored under the task's id.
\<close>

fun mergeInto :: "(Task \<Rightarrow> Task \<Rightarrow> Task) \<Rightarrow> (string, Task) JsMap \<Rightarrow> Task list \<Rightarrow> (string, Task) JsMap" where
  "mergeInto resolve tasksById [] = tasksById"
| "mergeInto resolve tasksById (t # ts) =
     mergeInto resolve
       (case Map_get tasksById (task_id t) of
          None \<Rightarrow> Map_set (task_id t) t tasksById
        | Some existing \<Rightarrow> Map_set (task_id t) (resolve existing t) tasksById)
       ts"

definition seedLocal :: "Task list \<Rightarrow> (string, Task) JsMap" where
  "seedLocal localTasks = Map_new (map (\<lambda>t. (task_id t, t\<lparr>source := Some local\<rparr>)) localTasks)"

text \<open>The order of the source: other local branches first, then the remote branches.\<close>

definition mergeTasks :: "(Task \<Rightarrow> Task \<Rightarrow> Task) \<Rightarrow> Task list \<Rightarrow> Task list \<Rightarrow> Task list \<Rightarrow> (string, Task) JsMap" where
  "mergeTasks resolve localTasks localBranchTasks remoteTasks =
     mergeInto resolve (mergeInto resolve (seedLocal localTasks) localBranchTasks) remoteTasks"

text \<open>The same fold with the two collections exchanged: remote branches first.\<close>

definition mergeTasksRemoteFirst :: "(Task \<Rightarrow> Task \<Rightarrow> Task) \<Rightarrow> Task list \<Rightarrow> Task list \<Rightarrow> Task list \<Rightarrow> (string, Task) JsMap" where
  "mergeTasksRemoteFirst resolve localTasks localBranchTasks remoteTasks =
     mergeInto resolve (mergeInto resolve (seedLocal localTasks) remoteTasks) localBranchTasks"

section \<open>State snapshots\<close>

text \<open>
  \<^verbatim>\<open>buildLatestStateMap\<close>: the inner function \<^verbatim>\<open>update\<close> stores an entry when its id has
  no entry yet or when its date is later than the stored one. The scanned entries are
  processed first, then one entry of type \<^verbatim>\<open>"task"\<close> per local task with a non-empty id,
  dated \<^verbatim>\<open>lastModified\<close>, or else the parsed \<^verbatim>\<open>updatedDate\<close>, or else the epoch.
\<close>

definition update :: "BranchTaskStateEntry \<Rightarrow> (string, BranchTaskStateEntry) JsMap \<Rightarrow> (string, BranchTaskStateEntry) JsMap" where
  "update entry latest =
     (case Map_get latest (entry_id entry) of
        None \<Rightarrow> Map_set (entry_id entry) entry latest
      | Some existing \<Rightarrow>
          if dateGt (entry_lastModified entry) (entry_lastModified existing)
          then Map_set (entry_id entry) entry latest
          else latest)"

definition localLastModified :: "(string \<Rightarrow> Date) \<Rightarrow> Task \<Rightarrow> Date" where
  "localLastModified parseDate task =
     (case lastModified task of
        Some d \<Rightarrow> d
      | None \<Rightarrow> (if truthy (updatedDate task) then parseDate (the (updatedDate task)) else Time 0))"

definition localEntry :: "(string \<Rightarrow> Date) \<Rightarrow> Task \<Rightarrow> BranchTaskStateEntry" where
  "localEntry parseDate task =
     \<lparr>entry_id = task_id task, entry_type = ''task'', entry_branch = ''local'',
      entry_path = [], entry_lastModified = localLastModified parseDate task\<rparr>"

definition buildLatestStateMap ::
  "(string \<Rightarrow> Date) \<Rightarrow> BranchTaskStateEntry list \<Rightarrow> Task list \<Rightarrow> (string, BranchTaskStateEntry) JsMap" where
  "buildLatestStateMap parseDate stateEntries localTasks =
     fold (\<lambda>task latest. if task_id task = [] then latest else update (localEntry parseDate task) latest)
       localTasks
       (fold update stateEntries [])"

definition filterTasksByStateSnapshots :: "Task list \<Rightarrow> (string, BranchTaskStateEntry) JsMap \<Rightarrow> Task list" where
  "filterTasksByStateSnapshots tasks latestState =
     filter (\<lambda>task. case Map_get latestState (task_id task) of
                       None \<Rightarrow> True
                     | Some latest \<Rightarrow> entry_type latest = ''task'')
       tasks"

section \<open>Loading the merged view\<close>

text \<open>
  The loops call \<^verbatim>\<open>resolveTaskConflict(existing, task, statuses, resolutionStrategy)\<close>:
  the current winner first, the candidate second.
\<close>

definition resolver :: "bool \<Rightarrow> (string \<Rightarrow> Date) \<Rightarrow> string list \<Rightarrow> Strategy \<Rightarrow> Task \<Rightarrow> Task \<Rightarrow> Task" where
  "resolver tieKeepsExisting parseDate statusOrder strategy existing incoming =
     resolveTaskConflict tieKeepsExisting parseDate existing incoming statusOrder strategy"

text \<open>
  The configuration values that \<^verbatim>\<open>loadTasks\<close> reads: \<^verbatim>\<open>config?.statuses || [...DEFAULT_STATUSES]\<close>
  (an array is truthy, also when empty), \<^verbatim>\<open>config?.taskResolutionStrategy || "most_progressed"\<close>
  and \<^verbatim>\<open>config?.checkActiveBranches === false\<close>. \<open>defaultStatuses\<close> stands for the
  constant \<^verbatim>\<open>DEFAULT_STATUSES\<close>.
\<close>

definition loadedStatuses :: "string list \<Rightarrow> BacklogConfig option \<Rightarrow> string list" where
  "loadedStatuses defaultStatuses config = (case config of None \<Rightarrow> defaultStatuses | Some c \<Rightarrow> statuses c)"

definition loadedStrategy :: "BacklogConfig option \<Rightarrow> Strategy" where
  "loadedStrategy config =
     (case config of
        None \<Rightarrow> most_progressed
      | Some c \<Rightarrow> (case taskResolutionStrategy c of None \<Rightarrow> most_progressed | Some s \<Rightarrow> s))"

definition crossBranchDisabled :: "BacklogConfig option \<Rightarrow> bool" where
  "crossBranchDisabled config = (case config of None \<Rightarrow> False | Some c \<Rightarrow> checkActiveBranches c = Some False)"

text \<open>
  \<^verbatim>\<open>loadTasks\<close>. The inputs are what the calls into the file system, the configuration
  and the branch loaders return: the configuration (or none), the local tasks with their
  metadata, the tasks of the remote and of the other local branches, and the state entries
  that the two loaders push into the shared array. \<open>aborted\<close> is the abort signal; every
  check of the source throws the same error, so a call either is cancelled or returns the
  list computed below.
\<close>

definition loadTasks ::
  "bool \<Rightarrow> (string \<Rightarrow> Date) \<Rightarrow> string list \<Rightarrow> BacklogConfig option \<Rightarrow> bool \<Rightarrow>
   Task list \<Rightarrow> Task list \<Rightarrow> Task list \<Rightarrow> BranchTaskStateEntry list \<Rightarrow> error + Task list" where
  "loadTasks tieKeepsExisting parseDate defaultStatuses config aborted
       localTasks remoteTasks localBranchTasks branchStateEntries =
     (if aborted then Inl LoadingCancelled
      else
        let tasksById =
              mergeTasks
                (resolver tieKeepsExisting parseDate (loadedStatuses defaultStatuses config) (loadedStrategy config))
                localTasks localBranchTasks remoteTasks;
            tasks = Map_values tasksById
        in Inr (if crossBranchDisabled config then tasks
                else filterTasksByStateSnapshots tasks
                       (buildLatestStateMap parseDate branchStateEntries localTasks)))"

text \<open>
  \<^verbatim>\<open>loadAllTasksForStatistics\<close> runs the same two loops, on a map that also holds the
  completed tasks whose id no local task has, tagged \<^verbatim>\<open>completed\<close>; it returns the
  filtered tasks, the drafts and the statuses.
\<close>

definition seedWithCompleted :: "Task list \<Rightarrow> Task list \<Rightarrow> (string, Task) JsMap" where
  "seedWithCompleted localTasks completedTasks =
     fold (\<lambda>completedTask tasksById.
             case Map_get tasksById (task_id completedTask) of
               None \<Rightarrow> Map_set (task_id completedTask) (completedTask\<lparr>source := Some completed\<rparr>) tasksById
             | Some existing \<Rightarrow> tasksById)
       completedTasks (seedLocal localTasks)"

definition loadAllTasksForStatistics ::
  "bool \<Rightarrow> (string \<Rightarrow> Date) \<Rightarrow> string list \<Rightarrow> BacklogConfig option \<Rightarrow>
   Task list \<Rightarrow> Task list \<Rightarrow> Task list \<Rightarrow> Task list \<Rightarrow> BranchTaskStateEntry list \<Rightarrow> Task list \<Rightarrow>
   Task list \<times> Task list \<times> string list" where
  "loadAllTasksForStatistics tieKeepsExisting parseDate defaultStatuses config
       localTasks completedTasks remoteTasks localBranchTasks branchStateEntries drafts =
     (let resolve = resolver tieKeepsExisting parseDate (loadedStatuses defaultStatuses config) (loadedStrategy config);
          tasksById =
            mergeInto resolve
              (mergeInto resolve (seedWithCompleted localTasks completedTasks) localBranchTasks)
              remoteTasks;
          tasks = Map_values tasksById;
          activeTasks =
            (if crossBranchDisabled config then tasks
             else filterTasksByStateSnapshots tasks
                    (buildLatestStateMap parseDate branchStateEntries localTasks))
      in (activeTasks, drafts, loadedStatuses defaultStatuses config))"

section \<open>Strings and numbers\<close>

text \<open>
  A string is a list of characters. \<^verbatim>\<open>trim\<close> removes white space at both ends (here the
  white space of ASCII), \<^verbatim>\<open>startsWith\<close> compares a prefix, \<^verbatim>\<open>padStart\<close> fills on the
  left up to a length.
\<close>

definition isSpace :: "char \<Rightarrow> bool" where
  "isSpace c = (c \<in> set [CHR '' '', CHR 0x09, CHR 0x0A, CHR 0x0B, CHR 0x0C, CHR 0x0D])"

definition trim :: "string \<Rightarrow> string" where
  "trim s = rev (dropWhile isSpace (rev (dropWhile isSpace s)))"

definition startsWith :: "string \<Rightarrow> string \<Rightarrow> bool" where
  "startsWith s p = (take (length p) s = p)"

definition padStart :: "string \<Rightarrow> nat \<Rightarrow> char \<Rightarrow> string" where
  "padStart s n c = replicate (n - length s) c @ s"

text \<open>
  Decimal digits: \<open>showNat n\<close> is the decimal notation of a natural number and \<open>decVal\<close> is
  the value of a string of digits.
\<close>

definition isDigit :: "char \<Rightarrow> bool" where
  "isDigit c = (c \<in> set ''0123456789'')"

definition digitVal :: "char \<Rightarrow> nat" where
  "digitVal c = of_char c - 48"

definition digitChar :: "nat \<Rightarrow> char" where
  "digitChar d = ''0123456789'' ! d"

fun showNat :: "nat \<Rightarrow> string" where
  "showNat n = (if n < 10 then [digitChar n] else showNat (n div 10) @ [digitChar (n mod 10)])"

declare showNat.simps [simp del]

definition decVal :: "string \<Rightarrow> nat" where
  "decVal ds = foldl (\<lambda>a c. 10 * a + digitVal c) 0 ds"

text \<open>
  The numbers of the source are IEEE 754 doubles. The id generation only meets doubles
  whose value is an integer, the two infinities and NaN. An integer is a double when its
  magnitude is at most \<open>2^53\<close>, or when it is \<open>m * 2^e\<close> with \<open>m < 2^53\<close> and is below
  \<open>2^1024\<close>. \<open>roundMagnitude\<close> rounds a magnitude to the nearest double, a tie to the one
  with the even significand; \<open>None\<close> is the overflow to infinity. \<open>toDouble\<close> is the
  conversion of a mathematical integer to a number.
\<close>

datatype Double = NotANumber | Finite int | PlusInfinity | MinusInfinity

fun bitLength :: "nat \<Rightarrow> nat" where
  "bitLength n = (if n = 0 then 0 else Suc (bitLength (n div 2)))"

declare bitLength.simps [simp del]

definition roundMagnitude :: "nat \<Rightarrow> nat option" where
  "roundMagnitude n =
     (if n \<le> 2 ^ 53 then Some n
      else (let e = bitLength n - 53;
                q = n div 2 ^ e;
                r = n mod 2 ^ e;
                m = (if 2 * r < 2 ^ e \<or> (2 * r = 2 ^ e \<and> even q) then q else q + 1)
            in if m * 2 ^ e < 2 ^ 1024 then Some (m * 2 ^ e) else None))"

definition toDouble :: "int \<Rightarrow> Double" where
  "toDouble i =
     (case roundMagnitude (nat \<bar>i\<bar>) of
        Some m \<Rightarrow> Finite (if i < 0 then - int m else int m)
      | None \<Rightarrow> if i < 0 then MinusInfinity else PlusInfinity)"

text \<open>The comparison \<^verbatim>\<open>a > b\<close> and the sum \<^verbatim>\<open>a + 1\<close> of numbers.\<close>

fun numGreater :: "Double \<Rightarrow> Double \<Rightarrow> bool" where
  "numGreater (Finite a) (Finite b) = (b < a)"
| "numGreater (Finite a) MinusInfinity = True"
| "numGreater PlusInfinity (Finite b) = True"
| "numGreater PlusInfinity MinusInfinity = True"
| "numGreater _ _ = False"

fun plusOne :: "Double \<Rightarrow> Double" where
  "plusOne (Finite a) = toDouble (a + 1)"
| "plusOne d = d"

text \<open>
  \<^verbatim>\<open>String(n)\<close> of a number whose value is an integer: the decimal digits below \<open>10^21\<close>,
  and from there on the exponent notation of the decimal number with the fewest
  significant digits that still denotes the number (of several such the one nearest to
  the number). \<open>nearestWithDigits v k\<close> are the neighbours of \<open>v\<close> among the multiples of the
  power of ten that leaves \<open>k\<close> digits, the nearer first, as far as they round to \<open>v\<close>.
\<close>

definition nearestWithDigits :: "nat \<Rightarrow> nat \<Rightarrow> nat list" where
  "nearestWithDigits v k =
     (let p = 10 ^ (length (showNat v) - k);
          lo = (v div p) * p;
          hi = lo + p
      in filter (\<lambda>w. roundMagnitude w = Some v)
           (if v - lo < hi - v \<or> (v - lo = hi - v \<and> even (v div p)) then [lo, hi] else [hi, lo]))"

definition shortestDecimal :: "nat \<Rightarrow> nat" where
  "shortestDecimal v =
     (case concat (map (nearestWithDigits v) [1..<Suc (length (showNat v))]) of
        [] \<Rightarrow> v
      | w # rest \<Rightarrow> w)"

definition magnitudeToString :: "nat \<Rightarrow> string" where
  "magnitudeToString v =
     (if v < 10 ^ 21 then showNat v
      else (let w = shortestDecimal v;
                ds = rev (dropWhile (\<lambda>c. c = CHR ''0'') (rev (showNat w)));
                exponent = ''e+'' @ showNat (length (showNat w) - 1)
            in if length ds = 1 then ds @ exponent
               else [hd ds] @ ''.'' @ tl ds @ exponent))"

fun numberToString :: "Double \<Rightarrow> string" where
  "numberToString NotANumber = ''NaN''"
| "numberToString PlusInfinity = ''Infinity''"
| "numberToString MinusInfinity = ''-Infinity''"
| "numberToString (Finite i) =
     (if i < 0 then ''-'' @ magnitudeToString (nat (- i)) else magnitudeToString (nat i))"

text \<open>
  \<^verbatim>\<open>Number.parseInt(s, 10)\<close>: leading white space, an optional sign, then the longest run
  of digits, whose value is rounded to a number; NaN when there is no digit. (Beyond 20
  significant digits the language allows an implementation to round an approximation of
  the value; here the value itself is rounded.)
\<close>

definition parseInt :: "string \<Rightarrow> Double" where
  "parseInt s =
     (let t = dropWhile isSpace s;
          negative = (t \<noteq> [] \<and> hd t = CHR ''-'');
          u = (if t \<noteq> [] \<and> (hd t = CHR ''-'' \<or> hd t = CHR ''+'') then tl t else t);
          ds = takeWhile isDigit u
      in if ds = [] then NotANumber
         else toDouble (if negative then - int (decVal ds) else int (decVal ds)))"

section \<open>Id generation\<close>

text \<open>
  \<^verbatim>\<open>generateNextId\<close>. The ids are those of the tasks of the content store, the drafts, the
  archived and the completed tasks, in this order. Without a parent, an id counts when
  it matches \<^verbatim>\<open>/^task-(\d+)/\<close>; \<open>matchTaskId\<close> is the group of digits matched, and the
  number of the id is what \<^verbatim>\<open>Number.parseInt\<close> reads from it. The maximum, its successor
  and the decimal notation of the successor are those of numbers.
  \<open>taskIdsEqual\<close> and \<open>normalizeTaskId\<close> stand for the functions of the same names of the
  task path utilities, which only the branch for subtasks calls.
\<close>

definition matchTaskId :: "string \<Rightarrow> string option" where
  "matchTaskId i =
     (let ds = takeWhile isDigit (drop 5 i)
      in if take 5 i = ''task-'' \<and> ds \<noteq> [] then Some ds else None)"

definition taskNumber :: "string \<Rightarrow> Double option" where
  "taskNumber i =
     (case matchTaskId i of
        None \<Rightarrow> None
      | Some ds \<Rightarrow> Some (parseInt (if ds = [] then ''0'' else ds)))"

definition maxTaskNumber :: "string list \<Rightarrow> Double" where
  "maxTaskNumber allIds =
     fold (\<lambda>i mx. case taskNumber i of
                     None \<Rightarrow> mx
                   | Some num \<Rightarrow> if numGreater num mx then num else mx)
       allIds (Finite 0)"

definition subTaskNumber :: "string \<Rightarrow> string \<Rightarrow> Double option" where
  "subTaskNumber prefix i =
     (if startsWith i (prefix @ ''.'')
      then (let rest = drop (length prefix + 1) i;
                first = takeWhile (\<lambda>c. c \<noteq> CHR ''.'') rest
            in Some (parseInt (if first = [] then ''0'' else first)))
      else None)"

definition maxSubTaskNumber :: "string \<Rightarrow> string list \<Rightarrow> Double" where
  "maxSubTaskNumber prefix allIds =
     fold (\<lambda>i mx. case subTaskNumber prefix i of
                     None \<Rightarrow> mx
                   | Some num \<Rightarrow> if numGreater num mx then num else mx)
       allIds (Finite 0)"

definition zeroPadded :: "BacklogConfig option \<Rightarrow> nat option" where
  "zeroPadded config =
     (case config of
        None \<Rightarrow> None
      | Some c \<Rightarrow> (case zeroPaddedIds c of
                     None \<Rightarrow> None
                   | Some p \<Rightarrow> if 0 < p then Some (nat p) else None))"

definition allTaskIds :: "Task list \<Rightarrow> Task list \<Rightarrow> Task list \<Rightarrow> Task list \<Rightarrow> string list" where
  "allTaskIds tasks drafts archivedTasks completedTasks =
     map task_id tasks @ map task_id drafts @ map task_id archivedTasks @ map task_id completedTasks"

definition generateNextId ::
  "(string \<Rightarrow> string \<Rightarrow> bool) \<Rightarrow> (string \<Rightarrow> string) \<Rightarrow> BacklogConfig option \<Rightarrow>
   Task list \<Rightarrow> Task list \<Rightarrow> Task list \<Rightarrow> Task list \<Rightarrow> string option \<Rightarrow> string" where
  "generateNextId taskIdsEqual normalizeTaskId config tasks drafts archivedTasks completedTasks parent =
     (let allIds = allTaskIds tasks drafts archivedTasks completedTasks
      in if truthy parent
         then (let prefix = (case List.find (\<lambda>i. taskIdsEqual (the parent) i) allIds of
                               Some i \<Rightarrow> i
                             | None \<Rightarrow> normalizeTaskId (the parent));
                   nextSubIdNumber = plusOne (maxSubTaskNumber prefix allIds)
               in case zeroPadded config of
                    Some padding \<Rightarrow> prefix @ ''.'' @ padStart (numberToString nextSubIdNumber) 2 CHR ''0''
                  | None \<Rightarrow> prefix @ ''.'' @ numberToString nextSubIdNumber)
         else (let nextIdNumber = plusOne (maxTaskNumber allIds)
               in case zeroPadded config of
                    Some padding \<Rightarrow> ''task-'' @ padStart (numberToString nextIdNumber) padding CHR ''0''
                  | None \<Rightarrow> ''task-'' @ numberToString nextIdNumber))"


section \<open>The core and its collaborators\<close>

text \<open>
  The functions that the core imports from files that are not among the sources are the
  fields of an environment, one field per function, with the name of the function after
  the prefix \<open>ext_\<close>: the id utilities, the ordinal functions of the reorder module, the
  status and list utilities of the task builders. \<open>ext_DEFAULT_ORDINAL_STEP\<close> is the
  constant of the reorder module. \<open>ext_calculateNewOrdinal\<close> takes the previous task, the
  next task and the step, and returns the ordinal and \<^verbatim>\<open>requiresRebalance\<close>;
  \<open>ext_resolveOrdinalConflicts\<close> takes the tasks, the step, the start ordinal and
  \<^verbatim>\<open>forceSequential\<close>. \<open>ext_validateDependencies\<close> returns the valid and the invalid ids.
\<close>

record Env =
  ext_taskIdsEqual :: "string \<Rightarrow> string \<Rightarrow> bool"
  ext_normalizeTaskId :: "string \<Rightarrow> string"
  ext_normalizeAssignee :: "Task \<Rightarrow> Task"
  ext_getTaskPath :: "string \<Rightarrow> string option"
  ext_DEFAULT_ORDINAL_STEP :: int
  ext_calculateNewOrdinal :: "Task option \<Rightarrow> Task option \<Rightarrow> int \<Rightarrow> int \<times> bool"
  ext_resolveOrdinalConflicts :: "Task list \<Rightarrow> int \<Rightarrow> int \<Rightarrow> bool \<Rightarrow> Task list"
  ext_resolveCanonicalStatus :: "string \<Rightarrow> string option"
  ext_normalizeStringList :: "string list option \<Rightarrow> string list option"
  ext_stringArraysEqual :: "string list \<Rightarrow> string list \<Rightarrow> bool"
  ext_normalizeDependencies :: "string list option \<Rightarrow> string list"
  ext_validateDependencies :: "string list \<Rightarrow> string list \<times> string list"

datatype GitOp =
    AddAndCommitTaskFile string string string
  | StageBacklogDirectory string
  | CommitChanges string

record StatusCallback =
  cb_command :: string
  cb_taskId :: string
  cb_oldStatus :: string
  cb_newStatus :: string
  cb_taskTitle :: string

text \<open>
  Modelled from the spec: the local record storage (\<^verbatim>\<open>loadTask\<close>, \<^verbatim>\<open>saveTask\<close>, the
  configuration), the content store's snapshot and the git gateway, which the core
  consumes and which are not among the sources. The state holds the configuration, the
  tasks of the content store, the task files by id, and the clock; \<open>saved\<close>, \<open>gitLog\<close> and
  \<open>callbacks\<close> record every call of \<^verbatim>\<open>saveTask\<close>, of a git operation and of the status
  callback, in the order of the calls. \<^verbatim>\<open>saveTask\<close> stores the record under its id.
\<close>

record World =
  fsConfig :: "BacklogConfig option"
  storeTasks :: "Task list"
  files :: "string \<Rightarrow> Task option"
  clock :: string
  saved :: "Task list"
  gitLog :: "GitOp list"
  callbacks :: "StatusCallback list"

definition saveTask :: "Task \<Rightarrow> World \<Rightarrow> World" where
  "saveTask task w = w\<lparr>files := (files w)(task_id task \<mapsto> task), saved := saved w @ [task]\<rparr>"

text \<open>\<^verbatim>\<open>Core.shouldAutoCommit\<close>: the override when it is given, else the configuration, else false.\<close>

definition shouldAutoCommit :: "World \<Rightarrow> bool option \<Rightarrow> bool" where
  "shouldAutoCommit w overrideValue =
     (case overrideValue of
        Some b \<Rightarrow> b
      | None \<Rightarrow> (case fsConfig w of
                   None \<Rightarrow> False
                 | Some c \<Rightarrow> (case autoCommit c of None \<Rightarrow> False | Some b \<Rightarrow> b)))"

text \<open>
  \<^verbatim>\<open>Core.getTask\<close>: the first task of the content store whose id is equal to the
  requested one for \<^verbatim>\<open>taskIdsEqual\<close>, else the file of the normalized id.
\<close>

definition getTask :: "Env \<Rightarrow> World \<Rightarrow> string \<Rightarrow> Task option" where
  "getTask env w taskId =
     (case List.find (\<lambda>task. ext_taskIdsEqual env taskId (task_id task)) (storeTasks w) of
        Some match \<Rightarrow> Some match
      | None \<Rightarrow> files w (ext_normalizeTaskId env taskId))"

text \<open>
  \<^verbatim>\<open>Core.executeStatusChangeCallback\<close>: the command of the task, else the one of the
  configuration; without a command nothing happens. A failing callback is logged and
  does not throw.
\<close>

definition executeStatusChangeCallback :: "Task \<Rightarrow> string \<Rightarrow> string \<Rightarrow> World \<Rightarrow> World" where
  "executeStatusChangeCallback task oldStatus newStatus w =
     (let callbackCommand =
            (case onStatusChange task of
               Some c \<Rightarrow> Some c
             | None \<Rightarrow> (case fsConfig w of None \<Rightarrow> None | Some c \<Rightarrow> cfg_onStatusChange c))
      in if truthy callbackCommand
         then w\<lparr>callbacks := callbacks w @
                [\<lparr>cb_command = the callbackCommand, cb_taskId = task_id task, cb_oldStatus = oldStatus,
                  cb_newStatus = newStatus, cb_taskTitle = title task\<rparr>]\<rparr>
         else w)"

text \<open>
  \<^verbatim>\<open>Core.updateTask\<close>. The task object is changed in place (the assignee is normalized,
  \<^verbatim>\<open>updatedDate\<close> is set), so the changed task is returned with the state.
\<close>

definition updateTask :: "Env \<Rightarrow> Task \<Rightarrow> bool option \<Rightarrow> World \<Rightarrow> Task \<times> World" where
  "updateTask env task0 autoCommitArg w =
     (let task1 = ext_normalizeAssignee env task0;
          oldStatus = (case files w (task_id task1) of None \<Rightarrow> [] | Some originalTask \<Rightarrow> status originalTask);
          newStatus = status task1;
          statusChanged = (oldStatus \<noteq> newStatus);
          task = task1\<lparr>updatedDate := Some (clock w)\<rparr>;
          w1 = saveTask task w;
          w2 = (if shouldAutoCommit w1 autoCommitArg
                then (case ext_getTaskPath env (task_id task) of
                        None \<Rightarrow> w1
                      | Some path \<Rightarrow>
                          if path = [] then w1
                          else w1\<lparr>gitLog := gitLog w1 @ [AddAndCommitTaskFile (task_id task) path ''update'']\<rparr>)
                else w1)
      in (task, if statusChanged then executeStatusChangeCallback task oldStatus newStatus w2 else w2))"

text \<open>
  \<^verbatim>\<open>Core.updateTasksBulk\<close>: every task is updated without a commit of its own, then one
  commit when auto-commit is on.
\<close>

definition updateTasksBulk :: "Env \<Rightarrow> Task list \<Rightarrow> string option \<Rightarrow> bool option \<Rightarrow> World \<Rightarrow> World" where
  "updateTasksBulk env tasks commitMessage autoCommitArg w =
     (let w1 = fold (\<lambda>task w'. snd (updateTask env task (Some False) w')) tasks w
      in if shouldAutoCommit w1 autoCommitArg
         then w1\<lparr>gitLog := gitLog w1 @
                [StageBacklogDirectory ''backlog'',
                 CommitChanges (if truthy commitMessage then the commitMessage
                                else ''Update '' @ showNat (length tasks) @ '' tasks'')]\<rparr>
         else w1)"

section \<open>Reordering\<close>

text \<open>
  The parameters of \<^verbatim>\<open>reorderTask\<close>. \<open>rp_targetMilestone\<close> is \<open>None\<close> for \<^verbatim>\<open>undefined\<close>,
  \<open>Some None\<close> for \<^verbatim>\<open>null\<close>, and \<open>Some (Some m)\<close> for a string.
\<close>

record ReorderParams =
  rp_taskId :: string
  rp_targetStatus :: string
  rp_orderedTaskIds :: "string list"
  rp_targetMilestone :: "string option option"
  rp_commitMessage :: "string option"
  rp_autoCommit :: "bool option"
  rp_defaultStep :: "int option"

text \<open>The loop over \<^verbatim>\<open>seen\<close>: the first id that occurred before.\<close>

fun firstDuplicate :: "string list \<Rightarrow> string list \<Rightarrow> string option" where
  "firstDuplicate seen [] = None"
| "firstDuplicate seen (i # ids) = (if i \<in> set seen then Some i else firstDuplicate (i # seen) ids)"

text \<open>An array read \<^verbatim>\<open>xs[i]\<close>: \<^verbatim>\<open>undefined\<close> out of range.\<close>

definition arrayAt :: "'a list \<Rightarrow> int \<Rightarrow> 'a option" where
  "arrayAt xs i = (if 0 \<le> i \<and> i < int (length xs) then Some (xs ! nat i) else None)"

definition trimmedTaskId :: "ReorderParams \<Rightarrow> string" where
  "trimmedTaskId params = trim (rp_taskId params)"

definition trimmedOrderedTaskIds :: "ReorderParams \<Rightarrow> string list" where
  "trimmedOrderedTaskIds params = filter (\<lambda>i. i \<noteq> []) (map trim (rp_orderedTaskIds params))"

text \<open>\<^verbatim>\<open>validTasks\<close>: the tasks that \<^verbatim>\<open>getTask\<close> finds for the ordered ids, in their order.\<close>

definition loadValidTasks :: "Env \<Rightarrow> World \<Rightarrow> string list \<Rightarrow> Task list" where
  "loadValidTasks env w orderedTaskIds = List.map_filter (getTask env w) orderedTaskIds"

text \<open>
  The filter that computes \<^verbatim>\<open>changedTasks\<close>: a task without an original, or whose
  ordinal, status or milestone differs from the original's.
\<close>

definition isChanged :: "(string, Task) JsMap \<Rightarrow> Task \<Rightarrow> bool" where
  "isChanged originalMap task =
     (case Map_get originalMap (task_id task) of
        None \<Rightarrow> True
      | Some original \<Rightarrow>
          ordinal original \<noteq> ordinal task
          \<or> status original \<noteq> status task
          \<or> (case milestone original of None \<Rightarrow> [] | Some m \<Rightarrow> m)
              \<noteq> (case milestone task of None \<Rightarrow> [] | Some m \<Rightarrow> m))"

definition reorderTask :: "Env \<Rightarrow> ReorderParams \<Rightarrow> World \<Rightarrow> (error + Task \<times> Task list) \<times> World" where
  "reorderTask env params w =
     (let taskId = trimmedTaskId params;
          targetStatus = trim (rp_targetStatus params);
          orderedTaskIds = trimmedOrderedTaskIds params;
          defaultStep = (case rp_defaultStep params of None \<Rightarrow> ext_DEFAULT_ORDINAL_STEP env | Some s \<Rightarrow> s)
      in if taskId = [] then (Inl TaskIdRequired, w)
         else if targetStatus = [] then (Inl TargetStatusRequired, w)
         else if orderedTaskIds = [] then (Inl OrderedTaskIdsEmpty, w)
         else if taskId \<notin> set orderedTaskIds then (Inl MovedTaskNotInOrder, w)
         else case firstDuplicate [] orderedTaskIds of
           Some i \<Rightarrow> (Inl (DuplicateTaskId i), w)
         | None \<Rightarrow>
          (let validTasks = loadValidTasks env w orderedTaskIds
           in case List.find (\<lambda>t. task_id t = taskId) validTasks of
                None \<Rightarrow> (Inl (TaskNotFoundWhileReordering taskId), w)
              | Some movedTask \<Rightarrow>
                  if truthy (branch movedTask)
                  then (Inl (TaskInOtherBranch taskId (the (branch movedTask))), w)
                  else
                   (let hasTargetMilestone = (rp_targetMilestone params \<noteq> None);
                        normalizedTargetMilestone =
                          (case rp_targetMilestone params of
                             Some (Some m) \<Rightarrow> if trim m \<noteq> [] then Some (trim m) else None
                           | _ \<Rightarrow> None);
                        validOrderedIds = filter (\<lambda>i. \<exists>t\<in>set validTasks. task_id t = i) orderedTaskIds;
                        targetIndex = indexOf validOrderedIds taskId
                    in if targetIndex = -1 then (Inl IndexMissing, w)
                       else
                        (let previousTask = (if 0 < targetIndex then arrayAt validTasks (targetIndex - 1) else None);
                             nextTask = (if targetIndex < int (length validTasks) - 1
                                         then arrayAt validTasks (targetIndex + 1) else None);
                             (newOrdinal, requiresRebalance) =
                               ext_calculateNewOrdinal env previousTask nextTask defaultStep;
                             updatedMoved =
                               (if hasTargetMilestone
                                then movedTask\<lparr>status := targetStatus, milestone := normalizedTargetMilestone,
                                                ordinal := Some newOrdinal\<rparr>
                                else movedTask\<lparr>status := targetStatus, ordinal := Some newOrdinal\<rparr>);
                             tasksInOrder =
                               map (\<lambda>(index, task). if int index = targetIndex then updatedMoved else task)
                                 (enumerate 0 validTasks);
                             resolutionUpdates =
                               ext_resolveOrdinalConflicts env tasksInOrder defaultStep defaultStep requiresRebalance;
                             updatesMap0 = fold (\<lambda>u m. Map_set (task_id u) u m) resolutionUpdates [];
                             updatesMap =
                               (case Map_get updatesMap0 (task_id updatedMoved) of
                                  None \<Rightarrow> Map_set (task_id updatedMoved) updatedMoved updatesMap0
                                | Some _ \<Rightarrow> updatesMap0);
                             originalMap = Map_new (map (\<lambda>task. (task_id task, task)) validTasks);
                             changedTasks = filter (isChanged originalMap) (Map_values updatesMap);
                             w' = (if changedTasks \<noteq> []
                                   then updateTasksBulk env changedTasks
                                          (Some (case rp_commitMessage params of
                                                   Some m \<Rightarrow> m
                                                 | None \<Rightarrow> ''Reorder tasks in '' @ targetStatus))
                                          (rp_autoCommit params) w
                                   else w);
                             updatedTask = (case Map_get updatesMap taskId of Some u \<Rightarrow> u | None \<Rightarrow> updatedMoved)
                         in (Inr (updatedTask, changedTasks), w')))))"

section \<open>Sequences\<close>

text \<open>
  Modelled from the spec: \<^verbatim>\<open>computeSequences\<close> of the sequences module, which is not among
  the sources (the core and the command line only call it, with the tasks that are not
  Done). Section 4.6 of the specification: repeatedly extract the tasks whose dependencies
  are all placed into prior sequences (or that have no dependencies), place them together
  as the next sequence (the index starts at 1), and repeat until no further progress is
  made; the tasks left over are unsequenced. A dependency on a task that is not in the
  active set is satisfied implicitly and does not block layering. Within a layer the
  tasks keep their input order.
\<close>

definition depsSatisfied :: "string list \<Rightarrow> string list \<Rightarrow> Task \<Rightarrow> bool" where
  "depsSatisfied activeIds placedIds t =
     (\<forall>d\<in>set (dependencies t). d \<in> set activeIds \<longrightarrow> d \<in> set placedIds)"

function layering :: "string list \<Rightarrow> string list \<Rightarrow> nat \<Rightarrow> Task list \<Rightarrow> Sequence list \<times> Task list" where
  "layering activeIds placedIds index remaining =
     (if filter (depsSatisfied activeIds placedIds) remaining = [] then ([], remaining)
      else (case layering activeIds
                   (placedIds @ map task_id (filter (depsSatisfied activeIds placedIds) remaining))
                   (Suc index)
                   (filter (\<lambda>t. \<not> depsSatisfied activeIds placedIds t) remaining) of
              (sequences, unsequenced) \<Rightarrow>
                (\<lparr>seq_index = index, seq_tasks = filter (depsSatisfied activeIds placedIds) remaining\<rparr>
                   # sequences,
                 unsequenced)))"
  by pat_completeness auto
termination
proof (relation "measure (\<lambda>(activeIds, placedIds, index, remaining). length remaining)")
  show "wf (measure (\<lambda>(activeIds, placedIds, index, remaining). length remaining))"
    by simp
next
  fix activeIds placedIds :: "string list" and index :: nat and remaining :: "Task list"
  assume ready: "filter (depsSatisfied activeIds placedIds) remaining \<noteq> []"
  have "length (filter (depsSatisfied activeIds placedIds) remaining)
          + length (filter (\<lambda>t. \<not> depsSatisfied activeIds placedIds t) remaining)
        = length remaining"
    by (rule sum_length_filter_compl)
  moreover have "0 < length (filter (depsSatisfied activeIds placedIds) remaining)"
    using ready by simp
  ultimately have "length (filter (\<lambda>t. \<not> depsSatisfied activeIds placedIds t) remaining) < length remaining"
    by arith
  then show "((activeIds,
               placedIds @ map task_id (filter (depsSatisfied activeIds placedIds) remaining),
               Suc index,
               filter (\<lambda>t. \<not> depsSatisfied activeIds placedIds t) remaining),
              (activeIds, placedIds, index, remaining))
             \<in> measure (\<lambda>(activeIds, placedIds, index, remaining). length remaining)"
    by simp
qed

declare layering.simps [simp del]

definition computeSequences :: "Task list \<Rightarrow> Task list \<times> Sequence list" where
  "computeSequences activeTasks =
     (case layering (map task_id activeTasks) [] 1 activeTasks of
        (sequences, unsequenced) \<Rightarrow> (unsequenced, sequences))"

text \<open>
  \<^verbatim>\<open>Core.listActiveSequences\<close>: the tasks of the file system whose status is not
  \<^verbatim>\<open>done\<close> in any letter case. \<open>toLowerCase\<close> maps the capital letters of ASCII.
\<close>

definition toLowerCase :: "string \<Rightarrow> string" where
  "toLowerCase s =
     map (\<lambda>c. if 65 \<le> (of_char c :: nat) \<and> (of_char c :: nat) \<le> 90 then char_of (of_char c + 32 :: nat) else c) s"

definition listActiveSequences :: "Task list \<Rightarrow> Task list \<times> Sequence list" where
  "listActiveSequences allTasks =
     computeSequences (filter (\<lambda>t. toLowerCase (status t) \<noteq> ''done'') allTasks)"
section \<open>Ordinal conflicts\<close>

text \<open>
  Modelled from the spec: \<^verbatim>\<open>resolveOrdinalConflicts\<close> of the reorder module, which is not
  among the sources (\<^verbatim>\<open>reorderTask\<close> calls it with the tasks of the bucket in the
  requested order, the step, the step as start ordinal, and \<^verbatim>\<open>requiresRebalance\<close> as
  \<^verbatim>\<open>forceSequential\<close>, and stores what it returns in a map by id). Section 4.5 of the
  specification: it assigns the ordinals \<^verbatim>\<open>startOrdinal\<close>, \<^verbatim>\<open>startOrdinal + defaultStep\<close>,
  \<^verbatim>\<open>startOrdinal + 2 * defaultStep\<close>, ... to the full ordered list when
  \<^verbatim>\<open>forceSequential\<close> is set or when any two adjacent tasks currently share an ordinal;
  otherwise it only returns the changed tasks, those whose ordinal must shift to remove a
  collision. The section names the aim of the shift, ordinals that increase strictly in
  the intended order, and one spacing, the step. So in the model a task collides when it
  has no ordinal or when its ordinal is not above the ordinal before it in the list, as
  resolved; its ordinal is then shifted to one step above that ordinal (to the start
  ordinal when the task is the first of the list), and every other task keeps its
  ordinal. Ordinals and the step are integers, as section 3 of the specification has
  them.
\<close>

fun adjacentShare :: "Task list \<Rightarrow> bool" where
  "adjacentShare (a # b # ts) = ((ordinal a \<noteq> None \<and> ordinal a = ordinal b) \<or> adjacentShare (b # ts))"
| "adjacentShare _ = False"

definition assignSequential :: "int \<Rightarrow> int \<Rightarrow> Task list \<Rightarrow> Task list" where
  "assignSequential startOrdinal defaultStep tasks =
     map (\<lambda>(k, t). t\<lparr>ordinal := Some (startOrdinal + int k * defaultStep)\<rparr>) (enumerate 0 tasks)"

fun shiftCollisions :: "int \<Rightarrow> int \<Rightarrow> int option \<Rightarrow> Task list \<Rightarrow> Task list" where
  "shiftCollisions defaultStep startOrdinal lastOrdinal [] = []"
| "shiftCollisions defaultStep startOrdinal lastOrdinal (t # ts) =
     (let assigned =
            (case lastOrdinal of
               None \<Rightarrow> (case ordinal t of None \<Rightarrow> startOrdinal | Some k \<Rightarrow> k)
             | Some l \<Rightarrow> (case ordinal t of
                            None \<Rightarrow> l + defaultStep
                          | Some k \<Rightarrow> if k \<le> l then l + defaultStep else k))
      in t\<lparr>ordinal := Some assigned\<rparr> # shiftCollisions defaultStep startOrdinal (Some assigned) ts)"

definition changedOnly :: "Task list \<Rightarrow> Task list \<Rightarrow> Task list" where
  "changedOnly tasks resolved = map snd (filter (\<lambda>(t, r). ordinal r \<noteq> ordinal t) (zip tasks resolved))"

definition resolveOrdinalConflicts :: "Task list \<Rightarrow> int \<Rightarrow> int \<Rightarrow> bool \<Rightarrow> Task list" where
  "resolveOrdinalConflicts tasks defaultStep startOrdinal forceSequential =
     (if forceSequential \<or> adjacentShare tasks
      then assignSequential startOrdinal defaultStep tasks
      else changedOnly tasks (shiftCollisions defaultStep startOrdinal None tasks))"

text \<open>
  The bucket after the resolution: a task for whose id an update was returned is
  replaced by the update, as \<^verbatim>\<open>reorderTask\<close> does with its map of updates.
\<close>

definition applyUpdates :: "Task list \<Rightarrow> Task list \<Rightarrow> Task list" where
  "applyUpdates updates tasks =
     map (\<lambda>task. case Map_get (fold (\<lambda>u m. Map_set (task_id u) u m) updates []) (task_id task) of
                    None \<Rightarrow> task
                  | Some u \<Rightarrow> u)
       tasks"


section \<open>Editing a task\<close>

text \<open>
  \<^verbatim>\<open>TaskUpdateInput\<close>. A field that is absent is \<open>None\<close>; \<open>in_milestone\<close> is \<open>Some None\<close>
  for \<^verbatim>\<open>null\<close>. A number of the input may be NaN. An acceptance criterion to add is a
  string or an object with a text.
\<close>

datatype JsNumber = NaN | Num int

record AcceptanceCriterionInput =
  aci_text :: string
  aci_checked :: "bool option"

datatype CriterionAddition = AddText string | AddCriterion AcceptanceCriterionInput

record TaskUpdateInput =
  in_title :: "string option"
  in_description :: "string option"
  in_status :: "string option"
  in_priority :: "string option"
  in_milestone :: "string option option"
  in_labels :: "string list option"
  in_addLabels :: "string list option"
  in_removeLabels :: "string list option"
  in_assignee :: "string list option"
  in_ordinal :: "JsNumber option"
  in_dependencies :: "string list option"
  in_addDependencies :: "string list option"
  in_removeDependencies :: "string list option"
  in_implementationPlan :: "string option"
  in_appendImplementationPlan :: "string list option"
  in_clearImplementationPlan :: "bool option"
  in_implementationNotes :: "string option"
  in_appendImplementationNotes :: "string list option"
  in_clearImplementationNotes :: "bool option"
  in_acceptanceCriteria :: "AcceptanceCriterionInput list option"
  in_addAcceptanceCriteria :: "CriterionAddition list option"
  in_removeAcceptanceCriteria :: "int list option"
  in_checkAcceptanceCriteria :: "int list option"
  in_uncheckAcceptanceCriteria :: "int list option"
  in_rawContent :: "string option"
  in_branchName :: "string option"
  in_gitTag :: "string option"
  in_prNumber :: "string option"
  in_addToHistory :: "TaskHistoryEntry option"

text \<open>
  The function works on the loaded task object and on the flag \<^verbatim>\<open>mutated\<close>; a step takes
  and returns the pair of the two, or throws.
\<close>

type_synonym Edit = "Task \<times> bool"

definition bindE :: "error + 'a \<Rightarrow> ('a \<Rightarrow> error + 'b) \<Rightarrow> error + 'b" where
  "bindE m f = (case m of Inl e \<Rightarrow> Inl e | Inr x \<Rightarrow> f x)"

definition orEmpty :: "string option \<Rightarrow> string" where
  "orEmpty s = (case s of None \<Rightarrow> [] | Some t \<Rightarrow> t)"

text \<open>
  The local function \<^verbatim>\<open>applyStringField\<close>: a string that differs from the current value
  (or from the empty string when there is none) is assigned.
\<close>

definition applyStringField ::
  "string option \<Rightarrow> (Task \<Rightarrow> string option) \<Rightarrow> (string \<Rightarrow> Task \<Rightarrow> Task) \<Rightarrow> Edit \<Rightarrow> Edit" where
  "applyStringField given current assign ed =
     (case given of
        None \<Rightarrow> ed
      | Some nxt \<Rightarrow> if orEmpty (current (fst ed)) \<noteq> nxt then (assign nxt (fst ed), True) else ed)"

definition applyTitle :: "TaskUpdateInput \<Rightarrow> Edit \<Rightarrow> error + Edit" where
  "applyTitle input ed =
     (case in_title input of
        None \<Rightarrow> Inr ed
      | Some t \<Rightarrow>
          if trim t = [] then Inl TitleEmpty
          else if title (fst ed) \<noteq> trim t then Inr ((fst ed)\<lparr>title := trim t\<rparr>, True)
          else Inr ed)"

text \<open>\<^verbatim>\<open>Core.requireCanonicalStatus\<close> and \<^verbatim>\<open>Core.normalizePriority\<close>.\<close>

definition requireCanonicalStatus :: "Env \<Rightarrow> string \<Rightarrow> error + string" where
  "requireCanonicalStatus env s =
     (if truthy (ext_resolveCanonicalStatus env s) then Inr (the (ext_resolveCanonicalStatus env s))
      else Inl (InvalidStatus s))"

definition normalizePriority :: "string option \<Rightarrow> error + Priority option" where
  "normalizePriority given =
     (if \<not> truthy given then Inr None
      else if toLowerCase (the given) = ''high'' then Inr (Some high)
      else if toLowerCase (the given) = ''medium'' then Inr (Some medium)
      else if toLowerCase (the given) = ''low'' then Inr (Some low)
      else Inl (InvalidPriority (the given)))"

definition applyStatus :: "Env \<Rightarrow> TaskUpdateInput \<Rightarrow> Edit \<Rightarrow> error + Edit" where
  "applyStatus env input ed =
     (case in_status input of
        None \<Rightarrow> Inr ed
      | Some s \<Rightarrow>
          bindE (if toLowerCase (trim s) = ''draft'' then Inr ''Draft'' else requireCanonicalStatus env s)
            (\<lambda>canonicalStatus.
               if status (fst ed) \<noteq> canonicalStatus
               then Inr ((fst ed)\<lparr>status := canonicalStatus\<rparr>, True)
               else Inr ed))"

definition applyPriority :: "TaskUpdateInput \<Rightarrow> Edit \<Rightarrow> error + Edit" where
  "applyPriority input ed =
     (case in_priority input of
        None \<Rightarrow> Inr ed
      | Some p \<Rightarrow>
          bindE (normalizePriority (Some p))
            (\<lambda>normalizedPriority.
               if priority (fst ed) \<noteq> normalizedPriority
               then Inr ((fst ed)\<lparr>priority := normalizedPriority\<rparr>, True)
               else Inr ed))"

definition applyMilestone :: "TaskUpdateInput \<Rightarrow> Edit \<Rightarrow> Edit" where
  "applyMilestone input ed =
     (case in_milestone input of
        None \<Rightarrow> ed
      | Some given \<Rightarrow>
          (let normalizedMilestone =
                 (case given of
                    None \<Rightarrow> None
                  | Some m \<Rightarrow> if trim m \<noteq> [] then Some (trim m) else None)
           in if milestone (fst ed) \<noteq> normalizedMilestone
              then ((fst ed)\<lparr>milestone := normalizedMilestone\<rparr>, True)
              else ed))"

definition applyOrdinal :: "TaskUpdateInput \<Rightarrow> Edit \<Rightarrow> error + Edit" where
  "applyOrdinal input ed =
     (case in_ordinal input of
        None \<Rightarrow> Inr ed
      | Some NaN \<Rightarrow> Inl OrdinalNegative
      | Some (Num k) \<Rightarrow>
          if k < 0 then Inl OrdinalNegative
          else if ordinal (fst ed) \<noteq> Some k then Inr ((fst ed)\<lparr>ordinal := Some k\<rparr>, True)
          else Inr ed)"

definition orNil :: "'a list option \<Rightarrow> 'a list" where
  "orNil xs = (case xs of None \<Rightarrow> [] | Some ys \<Rightarrow> ys)"

definition applyAssignee :: "Env \<Rightarrow> TaskUpdateInput \<Rightarrow> Edit \<Rightarrow> Edit" where
  "applyAssignee env input ed =
     (case in_assignee input of
        None \<Rightarrow> ed
      | Some given \<Rightarrow>
          (let sanitizedAssignee = orNil (ext_normalizeStringList env (Some given))
           in if \<not> ext_stringArraysEqual env sanitizedAssignee (assignee (fst ed))
              then ((fst ed)\<lparr>assignee := sanitizedAssignee\<rparr>, True)
              else ed))"

text \<open>
  The local function \<^verbatim>\<open>resolveLabelChanges\<close>. The loop over \<^verbatim>\<open>labelsToAdd\<close> carries the
  current labels and the flag.
\<close>

fun addLabelsLoop :: "string list \<Rightarrow> string list \<Rightarrow> bool \<Rightarrow> string list \<times> bool" where
  "addLabelsLoop [] currentLabels mutated = (currentLabels, mutated)"
| "addLabelsLoop (label # rest) currentLabels mutated =
     (if toLowerCase label \<notin> set (map toLowerCase currentLabels)
      then addLabelsLoop rest (currentLabels @ [label]) True
      else addLabelsLoop rest currentLabels mutated)"

definition resolveLabelChanges :: "Env \<Rightarrow> TaskUpdateInput \<Rightarrow> Edit \<Rightarrow> Edit" where
  "resolveLabelChanges env input ed0 =
     (let ed1 = (case in_labels input of
                   None \<Rightarrow> ed0
                 | Some given \<Rightarrow>
                     if \<not> ext_stringArraysEqual env (orNil (ext_normalizeStringList env (Some given))) (labels (fst ed0))
                     then ((fst ed0)\<lparr>labels := orNil (ext_normalizeStringList env (Some given))\<rparr>, True)
                     else ed0);
          currentLabels1 = (case in_labels input of
                              None \<Rightarrow> labels (fst ed0)
                            | Some given \<Rightarrow> orNil (ext_normalizeStringList env (Some given)));
          labelsToAdd = orNil (ext_normalizeStringList env (in_addLabels input));
          (currentLabels2, mutated2) =
             (if labelsToAdd \<noteq> [] then addLabelsLoop labelsToAdd currentLabels1 (snd ed1)
              else (currentLabels1, snd ed1));
          ed2 = (if labelsToAdd \<noteq> [] then ((fst ed1)\<lparr>labels := currentLabels2\<rparr>, mutated2) else ed1);
          labelsToRemove = orNil (ext_normalizeStringList env (in_removeLabels input));
          filtered = filter (\<lambda>label. toLowerCase label \<notin> set (map toLowerCase labelsToRemove)) currentLabels2
      in if labelsToRemove \<noteq> [] \<and> \<not> ext_stringArraysEqual env filtered currentLabels2
         then ((fst ed2)\<lparr>labels := filtered\<rparr>, True)
         else ed2)"

text \<open>The local function \<^verbatim>\<open>resolveDependencies\<close>.\<close>

fun addDependenciesLoop :: "string list \<Rightarrow> string list \<Rightarrow> bool \<Rightarrow> string list \<times> bool" where
  "addDependenciesLoop [] currentDependencies mutated = (currentDependencies, mutated)"
| "addDependenciesLoop (dep # rest) currentDependencies mutated =
     (if dep \<notin> set currentDependencies
      then addDependenciesLoop rest (currentDependencies @ [dep]) True
      else addDependenciesLoop rest currentDependencies mutated)"

definition validDependencies :: "Env \<Rightarrow> string list \<Rightarrow> error + string list" where
  "validDependencies env normalized =
     (if snd (ext_validateDependencies env normalized) \<noteq> []
      then Inl (DependenciesDoNotExist (snd (ext_validateDependencies env normalized)))
      else Inr (fst (ext_validateDependencies env normalized)))"

definition resolveDependencies :: "Env \<Rightarrow> TaskUpdateInput \<Rightarrow> Edit \<Rightarrow> error + Edit" where
  "resolveDependencies env input ed =
     bindE (case in_dependencies input of
              None \<Rightarrow> Inr (dependencies (fst ed), snd ed)
            | Some given \<Rightarrow>
                bindE (validDependencies env (ext_normalizeDependencies env (Some given)))
                  (\<lambda>valid. if \<not> ext_stringArraysEqual env valid (dependencies (fst ed))
                            then Inr (valid, True)
                            else Inr (dependencies (fst ed), snd ed)))
       (\<lambda>(current1, mutated1).
          bindE (if orNil (in_addDependencies input) \<noteq> []
                 then bindE (validDependencies env (ext_normalizeDependencies env (in_addDependencies input)))
                        (\<lambda>valid. Inr (addDependenciesLoop valid current1 mutated1))
                 else Inr (current1, mutated1))
            (\<lambda>(current2, mutated2).
               (let filtered = filter (\<lambda>dep. dep \<notin> set (ext_normalizeDependencies env (in_removeDependencies input)))
                                 current2
                in if orNil (in_removeDependencies input) \<noteq> []
                      \<and> \<not> ext_stringArraysEqual env filtered current2
                   then Inr ((fst ed)\<lparr>dependencies := filtered\<rparr>, True)
                   else Inr ((fst ed)\<lparr>dependencies := current2\<rparr>, mutated2))))"

text \<open>The local functions \<^verbatim>\<open>sanitizeAppendInput\<close> and \<^verbatim>\<open>appendBlock\<close>, and the three steps of a text section.\<close>

definition sanitizeAppendInput :: "string list option \<Rightarrow> string list" where
  "sanitizeAppendInput given = filter (\<lambda>s. s \<noteq> []) (map trim (orNil given))"

fun joinBlocks :: "string list \<Rightarrow> string" where
  "joinBlocks [] = []"
| "joinBlocks [s] = s"
| "joinBlocks (s # rest) = s @ [CHR 0x0A, CHR 0x0A] @ joinBlocks rest"

definition appendBlock :: "string option \<Rightarrow> string list \<Rightarrow> string option \<times> bool" where
  "appendBlock existing additions =
     (let sanitizedAdditions = filter (\<lambda>s. s \<noteq> []) (map trim additions)
      in if sanitizedAdditions = [] then (existing, False)
         else if trim (orEmpty existing) = [] then (Some (joinBlocks sanitizedAdditions), True)
         else (Some (trim (orEmpty existing) @ [CHR 0x0A, CHR 0x0A] @ joinBlocks sanitizedAdditions), True))"

definition applySection ::
  "bool option \<Rightarrow> string option \<Rightarrow> string list option \<Rightarrow>
   (Task \<Rightarrow> string option) \<Rightarrow> (string option \<Rightarrow> Task \<Rightarrow> Task) \<Rightarrow> Edit \<Rightarrow> Edit" where
  "applySection clear given appends current assign ed0 =
     (let ed1 = (if clear = Some True \<and> current (fst ed0) \<noteq> None then (assign None (fst ed0), True) else ed0);
          ed2 = applyStringField given current (\<lambda>nxt. assign (Some nxt)) ed1
      in if sanitizeAppendInput appends \<noteq> [] \<and> snd (appendBlock (current (fst ed2)) (sanitizeAppendInput appends))
         then (assign (fst (appendBlock (current (fst ed2)) (sanitizeAppendInput appends))) (fst ed2), True)
         else ed2)"

text \<open>
  The acceptance criteria. The list is a copy of the items of the task; the steps work
  on the copy and the flag, and the copy is assigned to the task at the end.
\<close>

fun indexed :: "int \<Rightarrow> (string \<times> bool) list \<Rightarrow> AcceptanceCriterion list" where
  "indexed k [] = []"
| "indexed k ((t, c) # rest) = \<lparr>ac_index = k, ac_text = t, ac_checked = c\<rparr> # indexed (k + 1) rest"

definition sanitizeCriteria :: "AcceptanceCriterionInput list \<Rightarrow> AcceptanceCriterion list" where
  "sanitizeCriteria given =
     indexed 1 (filter (\<lambda>(t, c). t \<noteq> [])
                  (map (\<lambda>criterion. (trim (aci_text criterion), aci_checked criterion = Some True)) given))"

definition additionText :: "CriterionAddition \<Rightarrow> string" where
  "additionText a = (case a of AddText s \<Rightarrow> trim s | AddCriterion c \<Rightarrow> trim (aci_text c))"

definition nextCriterionIndex :: "AcceptanceCriterion list \<Rightarrow> int" where
  "nextCriterionIndex criteria =
     (if criteria \<noteq> [] then fold max (map ac_index criteria) (ac_index (hd criteria)) + 1 else 1)"

definition addCriteria :: "CriterionAddition list option \<Rightarrow> AcceptanceCriterion list \<times> bool \<Rightarrow> AcceptanceCriterion list \<times> bool" where
  "addCriteria given st =
     (let additions = filter (\<lambda>s. s \<noteq> []) (map additionText (orNil given))
      in if additions \<noteq> []
         then (fst st @ indexed (nextCriterionIndex (fst st)) (map (\<lambda>t. (t, False)) additions), True)
         else st)"

text \<open>\<^verbatim>\<open>Array.from(new Set(xs))\<close>: the first occurrences, in their order.\<close>

definition dedupFirst :: "'a list \<Rightarrow> 'a list" where
  "dedupFirst xs = rev (remdups (rev xs))"

definition rebuildIndices :: "AcceptanceCriterion list \<Rightarrow> AcceptanceCriterion list" where
  "rebuildIndices criteria = map (\<lambda>(k, c). c\<lparr>ac_index := int k + 1\<rparr>) (enumerate 0 criteria)"

definition removeCriteria ::
  "int list option \<Rightarrow> AcceptanceCriterion list \<times> bool \<Rightarrow> error + AcceptanceCriterion list \<times> bool" where
  "removeCriteria given st =
     (if orNil given \<noteq> []
      then (let kept = filter (\<lambda>c. ac_index c \<notin> set (orNil given)) (fst st)
            in if length kept = length (fst st) then Inl (CriterionNotFound (dedupFirst (orNil given)))
               else Inr (rebuildIndices kept, True))
      else Inr st)"

fun setChecked :: "int \<Rightarrow> bool \<Rightarrow> AcceptanceCriterion list \<Rightarrow> AcceptanceCriterion list" where
  "setChecked k b [] = []"
| "setChecked k b (c # cs) = (if ac_index c = k then c\<lparr>ac_checked := b\<rparr> # cs else c # setChecked k b cs)"

fun toggleLoop ::
  "int list \<Rightarrow> bool \<Rightarrow> AcceptanceCriterion list \<Rightarrow> bool \<Rightarrow> int list \<Rightarrow> AcceptanceCriterion list \<times> bool \<times> int list" where
  "toggleLoop [] checked criteria mutated missing = (criteria, mutated, missing)"
| "toggleLoop (k # rest) checked criteria mutated missing =
     (case List.find (\<lambda>c. ac_index c = k) criteria of
        None \<Rightarrow> toggleLoop rest checked criteria mutated (missing @ [k])
      | Some criterion \<Rightarrow>
          if ac_checked criterion \<noteq> checked
          then toggleLoop rest checked (setChecked k checked criteria) True missing
          else toggleLoop rest checked criteria mutated missing)"

definition toggleCriteria ::
  "int list option \<Rightarrow> bool \<Rightarrow> AcceptanceCriterion list \<times> bool \<Rightarrow> error + AcceptanceCriterion list \<times> bool" where
  "toggleCriteria indices checked st =
     (case toggleLoop (orNil indices) checked (fst st) (snd st) [] of
        (criteria, mutated, missing) \<Rightarrow>
          if missing \<noteq> [] then Inl (CriterionNotFound missing) else Inr (criteria, mutated))"

definition applyAcceptanceCriteria :: "TaskUpdateInput \<Rightarrow> Edit \<Rightarrow> error + Edit" where
  "applyAcceptanceCriteria input ed =
     (let st0 = (orNil (acceptanceCriteriaItems (fst ed)), snd ed);
          st1 = (case in_acceptanceCriteria input of
                   None \<Rightarrow> st0
                 | Some given \<Rightarrow> (sanitizeCriteria given, True));
          st2 = addCriteria (in_addAcceptanceCriteria input) st1
      in bindE (removeCriteria (in_removeAcceptanceCriteria input) st2)
           (\<lambda>st3. bindE (toggleCriteria (in_checkAcceptanceCriteria input) True st3)
              (\<lambda>st4. bindE (toggleCriteria (in_uncheckAcceptanceCriteria input) False st4)
                 (\<lambda>st5. Inr ((fst ed)\<lparr>acceptanceCriteriaItems := Some (fst st5)\<rparr>, snd st5)))))"

definition applyHistory :: "TaskUpdateInput \<Rightarrow> Edit \<Rightarrow> Edit" where
  "applyHistory input ed =
     (case in_addToHistory input of
        None \<Rightarrow> ed
      | Some entry \<Rightarrow> ((fst ed)\<lparr>history := Some (orNil (history (fst ed)) @ [entry])\<rparr>, True))"

text \<open>The steps of \<^verbatim>\<open>updateTaskFromInput\<close> between the load and the test of the flag, in the order of the source.\<close>

definition editTaskFields :: "Env \<Rightarrow> TaskUpdateInput \<Rightarrow> Edit \<Rightarrow> error + Edit" where
  "editTaskFields env input ed0 =
     bindE (applyTitle input ed0)
       (\<lambda>ed1. bindE (applyStatus env input
                        (applyStringField (in_description input) description (\<lambda>nxt t. t\<lparr>description := Some nxt\<rparr>) ed1))
          (\<lambda>ed2. bindE (applyPriority input ed2)
             (\<lambda>ed3. bindE (applyOrdinal input (applyMilestone input ed3))
                (\<lambda>ed4. bindE (resolveDependencies env input
                                 (resolveLabelChanges env input (applyAssignee env input ed4)))
                   (\<lambda>ed5. bindE (applyAcceptanceCriteria input
                                    (applySection (in_clearImplementationNotes input)
                                       (in_implementationNotes input) (in_appendImplementationNotes input)
                                       implementationNotes (\<lambda>v t. t\<lparr>implementationNotes := v\<rparr>)
                                       (applySection (in_clearImplementationPlan input)
                                          (in_implementationPlan input) (in_appendImplementationPlan input)
                                          implementationPlan (\<lambda>v t. t\<lparr>implementationPlan := v\<rparr>) ed5)))
                      (\<lambda>ed6. Inr (applyHistory input
                                     (applyStringField (in_prNumber input) prNumber (\<lambda>nxt t. t\<lparr>prNumber := Some nxt\<rparr>)
                                        (applyStringField (in_gitTag input) gitTag (\<lambda>nxt t. t\<lparr>gitTag := Some nxt\<rparr>)
                                           (applyStringField (in_branchName input) branchName
                                              (\<lambda>nxt t. t\<lparr>branchName := Some nxt\<rparr>) ed6))))))))))"

text \<open>
  \<^verbatim>\<open>Core.updateTaskFromInput\<close>: the task is loaded, the steps run, and when the flag is
  not set the task is returned; otherwise the task is written by \<^verbatim>\<open>updateTask\<close> and
  loaded again.
\<close>

definition updateTaskFromInput ::
  "Env \<Rightarrow> string \<Rightarrow> TaskUpdateInput \<Rightarrow> bool option \<Rightarrow> World \<Rightarrow> (error + Task) \<times> World" where
  "updateTaskFromInput env taskId input autoCommitArg w =
     (case files w taskId of
        None \<Rightarrow> (Inl (TaskNotFound taskId), w)
      | Some task0 \<Rightarrow>
          (case editTaskFields env input (task0, False) of
             Inl e \<Rightarrow> (Inl e, w)
           | Inr (task, mutated) \<Rightarrow>
               if \<not> mutated then (Inr task, w)
               else (case updateTask env task autoCommitArg w of
                       (written, w') \<Rightarrow>
                         (Inr (case files w' taskId of None \<Rightarrow> written | Some refreshed \<Rightarrow> refreshed), w'))))"

section \<open>Notions used in the statements\<close>

text \<open>
  \<open>beats\<close>: the record that the resolver prefers "outright", whatever the order of its
  arguments. Two records of which neither beats the other tie.
\<close>

definition beats :: "(string \<Rightarrow> Date) \<Rightarrow> string list \<Rightarrow> Strategy \<Rightarrow> Task \<Rightarrow> Task \<Rightarrow> bool" where
  "beats parseDate statusOrder strategy a b =
     (case strategy of
        most_recent \<Rightarrow> dateGt (taskTimestamp parseDate a) (taskTimestamp parseDate b)
      | most_progressed \<Rightarrow>
          statusRank statusOrder (status b) < statusRank statusOrder (status a)
          \<or> (statusRank statusOrder (status a) = statusRank statusOrder (status b)
              \<and> dateGt (taskTimestamp parseDate a) (taskTimestamp parseDate b)))"

text \<open>One step of the merge loops, seen from a single id: the winner so far and the next candidate.\<close>

fun pickStep :: "(Task \<Rightarrow> Task \<Rightarrow> Task) \<Rightarrow> Task \<Rightarrow> Task option \<Rightarrow> Task option" where
  "pickStep resolve t None = Some t"
| "pickStep resolve t (Some existing) = Some (resolve existing t)"

fun optList :: "'a option \<Rightarrow> 'a list" where
  "optList None = []"
| "optList (Some x) = [x]"

text \<open>Every value of the map is stored under its own id.\<close>

definition keyed :: "(string, Task) JsMap \<Rightarrow> bool" where
  "keyed m = (\<forall>(k, v)\<in>set m. task_id v = k)"

text \<open>
  The entries that \<^verbatim>\<open>buildLatestStateMap\<close> passes to \<^verbatim>\<open>update\<close>, in the order of the
  calls: the scanned entries, then the entries of the local tasks with an id.
\<close>

definition stateCandidates :: "(string \<Rightarrow> Date) \<Rightarrow> BranchTaskStateEntry list \<Rightarrow> Task list \<Rightarrow> BranchTaskStateEntry list" where
  "stateCandidates parseDate stateEntries localTasks =
     stateEntries @ map (localEntry parseDate) (filter (\<lambda>task. task_id task \<noteq> []) localTasks)"

text \<open>
  The order that the specification describes, with the local entries ahead of the scanned
  ones, so that a local entry is preferred when the dates tie.
\<close>

definition stateCandidatesLocalFirst :: "(string \<Rightarrow> Date) \<Rightarrow> BranchTaskStateEntry list \<Rightarrow> Task list \<Rightarrow> BranchTaskStateEntry list" where
  "stateCandidatesLocalFirst parseDate stateEntries localTasks =
     map (localEntry parseDate) (filter (\<lambda>task. task_id task \<noteq> []) localTasks) @ stateEntries"

text \<open>The freshest entry of a list: the first of the entries with the latest date.\<close>

definition freshest :: "BranchTaskStateEntry list \<Rightarrow> BranchTaskStateEntry option" where
  "freshest es = List.find (\<lambda>e. \<forall>e'\<in>set es. dateGe (entry_lastModified e) (entry_lastModified e')) es"

text \<open>
  A task is kept when the freshest entry for its id has the type \<^verbatim>\<open>"task"\<close>, or when
  there is no entry for its id.
\<close>

definition keepsTask :: "BranchTaskStateEntry list \<Rightarrow> Task \<Rightarrow> bool" where
  "keepsTask candidates task =
     (case freshest (filter (\<lambda>e. entry_id e = task_id task) candidates) of
        None \<Rightarrow> True
      | Some e \<Rightarrow> entry_type e = ''task'')"

text \<open>One call of \<^verbatim>\<open>update\<close>, seen from a single id.\<close>

fun keepStep :: "BranchTaskStateEntry \<Rightarrow> BranchTaskStateEntry option \<Rightarrow> BranchTaskStateEntry option" where
  "keepStep e None = Some e"
| "keepStep e (Some existing) =
     (if dateGt (entry_lastModified e) (entry_lastModified existing) then Some e else Some existing)"

text \<open>The errors with which \<^verbatim>\<open>reorderTask\<close> rejects a malformed request.\<close>

fun isValidationError :: "error \<Rightarrow> bool" where
  "isValidationError TaskIdRequired = True"
| "isValidationError TargetStatusRequired = True"
| "isValidationError OrderedTaskIdsEmpty = True"
| "isValidationError MovedTaskNotInOrder = True"
| "isValidationError (DuplicateTaskId i) = True"
| "isValidationError _ = False"

text \<open>A request that passes the validation of \<^verbatim>\<open>reorderTask\<close>.\<close>

definition requestWellFormed :: "ReorderParams \<Rightarrow> bool" where
  "requestWellFormed params =
     (trimmedTaskId params \<noteq> [] \<and> trim (rp_targetStatus params) \<noteq> []
      \<and> trimmedTaskId params \<in> set (trimmedOrderedTaskIds params)
      \<and> distinct (trimmedOrderedTaskIds params))"

text \<open>
  The record of the task being moved: the first of the tasks loaded for the ordered ids
  whose id is the id of the request.
\<close>

definition movedRecord :: "Env \<Rightarrow> ReorderParams \<Rightarrow> World \<Rightarrow> Task option" where
  "movedRecord env params w =
     List.find (\<lambda>t. task_id t = trimmedTaskId params)
       (loadValidTasks env w (trimmedOrderedTaskIds params))"


text \<open>
  The number of an id, as a natural number: the value of the digits that
  \<^verbatim>\<open>/^task-(\d+)/\<close> matches, when the id matches.
\<close>

definition numericPart :: "string \<Rightarrow> nat option" where
  "numericPart i = (case matchTaskId i of None \<Rightarrow> None | Some ds \<Rightarrow> Some (decVal ds))"


text \<open>
  An edit that names only values that the task has. For every field that the input
  mentions, the value asked for (as \<^verbatim>\<open>updateTaskFromInput\<close> normalizes it: the title
  trimmed, the status canonical, the priority in lower case, the lists sanitized) is the
  value of the task; the labels and dependencies to add are present and those to remove
  are absent; the plan or notes to clear are not there and nothing is appended; the
  criteria to check are checked and those to uncheck are unchecked; and the input
  replaces, adds and removes no acceptance criteria and brings no history entry.
\<close>

definition sameString :: "string option \<Rightarrow> string option \<Rightarrow> bool" where
  "sameString given current = (case given of None \<Rightarrow> True | Some s \<Rightarrow> orEmpty current = s)"

definition sameTitle :: "TaskUpdateInput \<Rightarrow> Task \<Rightarrow> bool" where
  "sameTitle input t = (case in_title input of None \<Rightarrow> True | Some s \<Rightarrow> trim s \<noteq> [] \<and> title t = trim s)"

definition sameStatus :: "Env \<Rightarrow> TaskUpdateInput \<Rightarrow> Task \<Rightarrow> bool" where
  "sameStatus env input t =
     (case in_status input of
        None \<Rightarrow> True
      | Some s \<Rightarrow>
          (if toLowerCase (trim s) = ''draft'' then Inr ''Draft'' else requireCanonicalStatus env s)
            = Inr (status t))"

definition samePriority :: "TaskUpdateInput \<Rightarrow> Task \<Rightarrow> bool" where
  "samePriority input t =
     (case in_priority input of None \<Rightarrow> True | Some p \<Rightarrow> normalizePriority (Some p) = Inr (priority t))"

definition sameMilestone :: "TaskUpdateInput \<Rightarrow> Task \<Rightarrow> bool" where
  "sameMilestone input t =
     (case in_milestone input of
        None \<Rightarrow> True
      | Some None \<Rightarrow> milestone t = None
      | Some (Some m) \<Rightarrow> milestone t = (if trim m \<noteq> [] then Some (trim m) else None))"

definition sameOrdinal :: "TaskUpdateInput \<Rightarrow> Task \<Rightarrow> bool" where
  "sameOrdinal input t =
     (case in_ordinal input of
        None \<Rightarrow> True
      | Some NaN \<Rightarrow> False
      | Some (Num k) \<Rightarrow> 0 \<le> k \<and> ordinal t = Some k)"

definition sameAssignee :: "Env \<Rightarrow> TaskUpdateInput \<Rightarrow> Task \<Rightarrow> bool" where
  "sameAssignee env input t =
     (case in_assignee input of
        None \<Rightarrow> True
      | Some given \<Rightarrow> orNil (ext_normalizeStringList env (Some given)) = assignee t)"

definition sameLabels :: "Env \<Rightarrow> TaskUpdateInput \<Rightarrow> Task \<Rightarrow> bool" where
  "sameLabels env input t =
     ((case in_labels input of
         None \<Rightarrow> True
       | Some given \<Rightarrow> orNil (ext_normalizeStringList env (Some given)) = labels t)
      \<and> list_all (\<lambda>label. toLowerCase label \<in> set (map toLowerCase (labels t)))
           (orNil (ext_normalizeStringList env (in_addLabels input)))
      \<and> list_all (\<lambda>label. toLowerCase label
                            \<notin> set (map toLowerCase (orNil (ext_normalizeStringList env (in_removeLabels input)))))
           (labels t))"

definition sameDependencies :: "Env \<Rightarrow> TaskUpdateInput \<Rightarrow> Task \<Rightarrow> bool" where
  "sameDependencies env input t =
     ((case in_dependencies input of
         None \<Rightarrow> True
       | Some given \<Rightarrow>
           ext_validateDependencies env (ext_normalizeDependencies env (Some given)) = (dependencies t, []))
      \<and> (orNil (in_addDependencies input) = []
           \<or> snd (ext_validateDependencies env (ext_normalizeDependencies env (in_addDependencies input))) = []
             \<and> list_all (\<lambda>dep. dep \<in> set (dependencies t))
                  (fst (ext_validateDependencies env (ext_normalizeDependencies env (in_addDependencies input)))))
      \<and> (orNil (in_removeDependencies input) = []
           \<or> list_all (\<lambda>dep. dep \<notin> set (ext_normalizeDependencies env (in_removeDependencies input)))
                (dependencies t)))"

definition sameSection :: "bool option \<Rightarrow> string option \<Rightarrow> string list option \<Rightarrow> string option \<Rightarrow> bool" where
  "sameSection clear given appends current =
     ((clear \<noteq> Some True \<or> current = None) \<and> sameString given current \<and> sanitizeAppendInput appends = [])"

definition sameCriteria :: "TaskUpdateInput \<Rightarrow> Task \<Rightarrow> bool" where
  "sameCriteria input t =
     (in_acceptanceCriteria input = None
      \<and> filter (\<lambda>s. s \<noteq> []) (map additionText (orNil (in_addAcceptanceCriteria input))) = []
      \<and> orNil (in_removeAcceptanceCriteria input) = []
      \<and> list_all (\<lambda>k. case List.find (\<lambda>c. ac_index c = k) (orNil (acceptanceCriteriaItems t)) of
                         None \<Rightarrow> False
                       | Some criterion \<Rightarrow> ac_checked criterion)
           (orNil (in_checkAcceptanceCriteria input))
      \<and> list_all (\<lambda>k. case List.find (\<lambda>c. ac_index c = k) (orNil (acceptanceCriteriaItems t)) of
                         None \<Rightarrow> False
                       | Some criterion \<Rightarrow> \<not> ac_checked criterion)
           (orNil (in_uncheckAcceptanceCriteria input)))"

definition namesCurrentValues :: "Env \<Rightarrow> TaskUpdateInput \<Rightarrow> Task \<Rightarrow> bool" where
  "namesCurrentValues env input t =
     (sameTitle input t
      \<and> sameString (in_description input) (description t)
      \<and> sameStatus env input t
      \<and> samePriority input t
      \<and> sameMilestone input t
      \<and> sameOrdinal input t
      \<and> sameAssignee env input t
      \<and> sameLabels env input t
      \<and> sameDependencies env input t
      \<and> sameSection (in_clearImplementationPlan input) (in_implementationPlan input)
           (in_appendImplementationPlan input) (implementationPlan t)
      \<and> sameSection (in_clearImplementationNotes input) (in_implementationNotes input)
           (in_appendImplementationNotes input) (implementationNotes t)
      \<and> sameCriteria input t
      \<and> sameString (in_branchName input) (branchName t)
      \<and> sameString (in_gitTag input) (gitTag t)
      \<and> sameString (in_prNumber input) (prNumber t)
      \<and> in_addToHistory input = None)"


section \<open>Example data\<close>

definition exampleTask :: "string \<Rightarrow> string \<Rightarrow> Task" where
  "exampleTask i st =
     \<lparr>task_id = i, title = ''Example'', status = st, assignee = [], reporter = None,
      createdDate = ''2025-01-01'', updatedDate = None, labels = [], milestone = None,
      dependencies = [], rawContent = None, description = None, implementationPlan = None,
      implementationNotes = None, acceptanceCriteriaItems = None, parentTaskId = None,
      subtasks = None, priority = None, branch = None, ordinal = None, filePath = None,
      lastModified = None, source = None, onStatusChange = None, branchName = None,
      gitTag = None, prNumber = None, history = None\<rparr>"

definition exampleStatuses :: "string list" where
  "exampleStatuses = [''To Do'', ''In Progress'', ''Done'']"

text \<open>The example tasks carry \<^verbatim>\<open>lastModified\<close>, so no date string is parsed.\<close>

definition noDate :: "string \<Rightarrow> Date" where
  "noDate s = InvalidDate"

definition localCopy :: Task where
  "localCopy = (exampleTask ''task-1'' ''To Do'')\<lparr>lastModified := Some (Time 300)\<rparr>"

definition branchCopy :: Task where
  "branchCopy = (exampleTask ''task-1'' ''In Progress'')
     \<lparr>branch := Some ''feature'', lastModified := Some (Time 100), source := Some local_branch\<rparr>"

definition remoteCopy :: Task where
  "remoteCopy = (exampleTask ''task-1'' ''In Progress'')
     \<lparr>branch := Some ''origin/main'', lastModified := Some (Time 100), source := Some remote\<rparr>"

definition remoteDone :: Task where
  "remoteDone = (exampleTask ''task-1'' ''Done'')
     \<lparr>branch := Some ''origin/main'', lastModified := Some (Time 50), source := Some remote\<rparr>"

definition remoteOther :: Task where
  "remoteOther = (exampleTask ''task-2'' ''To Do'')
     \<lparr>branch := Some ''origin/main'', lastModified := Some (Time 70), source := Some remote\<rparr>"

text \<open>
  A scan of the branch \<^verbatim>\<open>feature\<close> found \<^verbatim>\<open>task-1\<close> in the archive, with the date that
  the local file has; a later scan entry finds it among the tasks again.
\<close>

definition archivedEntry :: BranchTaskStateEntry where
  "archivedEntry =
     \<lparr>entry_id = ''task-1'', entry_type = ''archived'', entry_branch = ''feature'',
      entry_path = ''backlog/archive/tasks/task-1 - Example.md'', entry_lastModified = Time 300\<rparr>"

definition restoredEntry :: BranchTaskStateEntry where
  "restoredEntry =
     \<lparr>entry_id = ''task-1'', entry_type = ''task'', entry_branch = ''main'',
      entry_path = ''backlog/tasks/task-1 - Example.md'', entry_lastModified = Time 400\<rparr>"

definition archivedOther :: BranchTaskStateEntry where
  "archivedOther =
     \<lparr>entry_id = ''task-2'', entry_type = ''archived'', entry_branch = ''feature'',
      entry_path = ''backlog/archive/tasks/task-2 - Example.md'', entry_lastModified = Time 90\<rparr>"

text \<open>Stand-ins for the id utilities: two ids are equal as strings, and an id is normal as it is.\<close>

definition sameId :: "string \<Rightarrow> string \<Rightarrow> bool" where
  "sameId a b = (a = b)"

definition keepId :: "string \<Rightarrow> string" where
  "keepId i = i"

text \<open>
  An environment for the examples: the assignee is left as it is, no task has a path (so
  no file is committed), and a task is placed one step behind its predecessor.
\<close>

definition keepTask :: "Task \<Rightarrow> Task" where
  "keepTask t = t"

definition noPath :: "string \<Rightarrow> string option" where
  "noPath i = None"

definition stepBehind :: "Task option \<Rightarrow> Task option \<Rightarrow> int \<Rightarrow> int \<times> bool" where
  "stepBehind previous next step =
     (case previous of
        None \<Rightarrow> (step, False)
      | Some p \<Rightarrow> ((case ordinal p of None \<Rightarrow> 0 | Some k \<Rightarrow> k) + step, False))"

definition knownStatus :: "string \<Rightarrow> string option" where
  "knownStatus s = (if s \<in> set exampleStatuses then Some s else None)"

definition givenList :: "string list option \<Rightarrow> string list option" where
  "givenList xs = xs"

definition sameList :: "string list \<Rightarrow> string list \<Rightarrow> bool" where
  "sameList xs ys = (xs = ys)"

definition givenDependencies :: "string list option \<Rightarrow> string list" where
  "givenDependencies xs = (case xs of None \<Rightarrow> [] | Some ys \<Rightarrow> ys)"

definition allValid :: "string list \<Rightarrow> string list \<times> string list" where
  "allValid xs = (xs, [])"

definition exampleEnv :: Env where
  "exampleEnv =
     \<lparr>ext_taskIdsEqual = sameId, ext_normalizeTaskId = keepId, ext_normalizeAssignee = keepTask,
      ext_getTaskPath = noPath, ext_DEFAULT_ORDINAL_STEP = 1000,
      ext_calculateNewOrdinal = stepBehind, ext_resolveOrdinalConflicts = resolveOrdinalConflicts,
      ext_resolveCanonicalStatus = knownStatus, ext_normalizeStringList = givenList,
      ext_stringArraysEqual = sameList, ext_normalizeDependencies = givenDependencies,
      ext_validateDependencies = allValid\<rparr>"

text \<open>
  A state: the content store holds \<^verbatim>\<open>task-1\<close>, whose authoritative copy is on the branch
  \<^verbatim>\<open>feature\<close>, and the local \<^verbatim>\<open>task-2\<close> and \<^verbatim>\<open>task-3\<close>; the two local tasks have files.
\<close>

definition localTwo :: Task where
  "localTwo = (exampleTask ''task-2'' ''To Do'')\<lparr>ordinal := Some 1000, source := Some local\<rparr>"

definition localThree :: Task where
  "localThree = (exampleTask ''task-3'' ''To Do'')\<lparr>ordinal := Some 2000, source := Some local\<rparr>"

definition exampleFiles :: "string \<Rightarrow> Task option" where
  "exampleFiles = [''task-2'' \<mapsto> localTwo, ''task-3'' \<mapsto> localThree]"

definition exampleWorld :: World where
  "exampleWorld =
     \<lparr>fsConfig = None, storeTasks = [branchCopy, localTwo, localThree], files = exampleFiles,
      clock = ''2025-03-01 12:00'', saved = [], gitLog = [], callbacks = []\<rparr>"

definition moveBranchTask :: ReorderParams where
  "moveBranchTask =
     \<lparr>rp_taskId = ''task-1'', rp_targetStatus = ''Done'', rp_orderedTaskIds = [''task-2'', '' task-1 ''],
      rp_targetMilestone = None, rp_commitMessage = None, rp_autoCommit = None, rp_defaultStep = None\<rparr>"

definition moveUnknownTask :: ReorderParams where
  "moveUnknownTask =
     \<lparr>rp_taskId = ''task-9'', rp_targetStatus = ''Done'', rp_orderedTaskIds = [''task-2'', ''task-9''],
      rp_targetMilestone = None, rp_commitMessage = None, rp_autoCommit = None, rp_defaultStep = None\<rparr>"

definition moveWithDuplicate :: ReorderParams where
  "moveWithDuplicate =
     \<lparr>rp_taskId = ''task-2'', rp_targetStatus = ''Done'', rp_orderedTaskIds = [''task-2'', ''task-3'', ''task-2 ''],
      rp_targetMilestone = None, rp_commitMessage = None, rp_autoCommit = None, rp_defaultStep = None\<rparr>"

text \<open>
  The example of the specification: A without dependencies, B depending on A, C depending
  on A and B; and D, which depends only on a task that is Done and so not active.
\<close>

definition taskA :: Task where
  "taskA = exampleTask ''task-1'' ''To Do''"

definition taskB :: Task where
  "taskB = (exampleTask ''task-2'' ''To Do'')\<lparr>dependencies := [''task-1'']\<rparr>"

definition taskC :: Task where
  "taskC = (exampleTask ''task-3'' ''In Progress'')\<lparr>dependencies := [''task-1'', ''task-2'']\<rparr>"

definition taskD :: Task where
  "taskD = (exampleTask ''task-4'' ''To Do'')\<lparr>dependencies := [''task-0'']\<rparr>"

text \<open>
  A bucket with a duplicated ordinal, as in the example of the specification, and a task
  moved to its head; and a bucket without a duplicate whose ordinals are out of order.
\<close>

definition movedOne :: Task where
  "movedOne = (exampleTask ''task-1'' ''To Do'')\<lparr>ordinal := Some 500\<rparr>"

definition duplicateTwo :: Task where
  "duplicateTwo = (exampleTask ''task-2'' ''To Do'')\<lparr>ordinal := Some 1000\<rparr>"

definition duplicateThree :: Task where
  "duplicateThree = (exampleTask ''task-3'' ''To Do'')\<lparr>ordinal := Some 1000\<rparr>"

definition lateFour :: Task where
  "lateFour = (exampleTask ''task-4'' ''To Do'')\<lparr>ordinal := Some 3000\<rparr>"

definition unplacedFive :: Task where
  "unplacedFive = exampleTask ''task-5'' ''To Do''"


text \<open>
  A task with one acceptance criterion, its file, and an edit that sets the acceptance
  criteria to the list that the task has (as the command line builds it from
  \<^verbatim>\<open>acceptanceCriteriaSet\<close>, with \<^verbatim>\<open>checked: false\<close>).
\<close>

definition criteriaTask :: Task where
  "criteriaTask = (exampleTask ''task-5'' ''To Do'')
     \<lparr>acceptanceCriteriaItems := Some [\<lparr>ac_index = 1, ac_text = ''Works offline'', ac_checked = False\<rparr>]\<rparr>"

definition criteriaWorld :: World where
  "criteriaWorld =
     \<lparr>fsConfig = None, storeTasks = [criteriaTask], files = [''task-5'' \<mapsto> criteriaTask],
      clock = ''2025-03-01 12:00'', saved = [], gitLog = [], callbacks = []\<rparr>"

definition emptyInput :: TaskUpdateInput where
  "emptyInput =
     \<lparr>in_title = None, in_description = None, in_status = None, in_priority = None,
      in_milestone = None, in_labels = None, in_addLabels = None, in_removeLabels = None,
      in_assignee = None, in_ordinal = None, in_dependencies = None, in_addDependencies = None,
      in_removeDependencies = None, in_implementationPlan = None,
      in_appendImplementationPlan = None, in_clearImplementationPlan = None,
      in_implementationNotes = None, in_appendImplementationNotes = None,
      in_clearImplementationNotes = None, in_acceptanceCriteria = None,
      in_addAcceptanceCriteria = None, in_removeAcceptanceCriteria = None,
      in_checkAcceptanceCriteria = None, in_uncheckAcceptanceCriteria = None,
      in_rawContent = None, in_branchName = None, in_gitTag = None, in_prNumber = None,
      in_addToHistory = None\<rparr>"

definition sameCriteriaInput :: TaskUpdateInput where
  "sameCriteriaInput =
     emptyInput\<lparr>in_acceptanceCriteria := Some [\<lparr>aci_text = ''Works offline'', aci_checked = Some False\<rparr>]\<rparr>"

definition sameTitleInput :: TaskUpdateInput where
  "sameTitleInput = emptyInput\<lparr>in_title := Some '' Example ''\<rparr>"

text \<open>A request that moves the local \<^verbatim>\<open>task-3\<close> in front of \<^verbatim>\<open>task-2\<close>.\<close>

definition moveLocalTask :: ReorderParams where
  "moveLocalTask =
     \<lparr>rp_taskId = ''task-3'', rp_targetStatus = ''To Do'', rp_orderedTaskIds = [''task-3'', ''task-2''],
      rp_targetMilestone = None, rp_commitMessage = None, rp_autoCommit = None, rp_defaultStep = None\<rparr>"

text \<open>An edit that adds a label and removes it again.\<close>

definition addRemoveLabelInput :: TaskUpdateInput where
  "addRemoveLabelInput = emptyInput\<lparr>in_addLabels := Some [''urgent''], in_removeLabels := Some [''urgent'']\<rparr>"

text \<open>
  A task with values in most fields, its file, and an edit that names these values again:
  the title with white space around it, the priority in capitals, a label to add that is
  there in another letter case, a label and a dependency to remove that are not there, a
  criterion to check that is checked, and an addition to the plan that is blank.
\<close>

definition busyTask :: Task where
  "busyTask = (exampleTask ''task-6'' ''In Progress'')
     \<lparr>assignee := [''@ana''], labels := [''bug'', ''ui''], milestone := Some ''m1'',
      dependencies := [''task-1''], description := Some ''Text'', implementationPlan := Some ''Plan'',
      acceptanceCriteriaItems :=
        Some [\<lparr>ac_index = 1, ac_text = ''Works offline'', ac_checked = True\<rparr>,
              \<lparr>ac_index = 2, ac_text = ''Syncs'', ac_checked = False\<rparr>],
      priority := Some high, ordinal := Some 3000\<rparr>"

definition busyWorld :: World where
  "busyWorld =
     \<lparr>fsConfig = None, storeTasks = [busyTask], files = [''task-6'' \<mapsto> busyTask],
      clock = ''2025-03-01 12:00'', saved = [], gitLog = [], callbacks = []\<rparr>"

definition sameValuesInput :: TaskUpdateInput where
  "sameValuesInput =
     emptyInput\<lparr>in_title := Some '' Example '', in_description := Some ''Text'',
                in_status := Some ''In Progress'', in_priority := Some ''HIGH'',
                in_milestone := Some (Some '' m1 ''), in_labels := Some [''bug'', ''ui''],
                in_addLabels := Some [''UI''], in_removeLabels := Some [''api''],
                in_assignee := Some [''@ana''], in_ordinal := Some (Num 3000),
                in_dependencies := Some [''task-1''], in_addDependencies := Some [''task-1''],
                in_removeDependencies := Some [''task-2''], in_implementationPlan := Some ''Plan'',
                in_appendImplementationPlan := Some ['' ''], in_clearImplementationNotes := Some True,
                in_checkAcceptanceCriteria := Some [1], in_uncheckAcceptanceCriteria := Some [2]\<rparr>"


section \<open>Properties of the merge\<close>

subsection \<open>The merge, id by id\<close>

lemma map_of_mergeInto:
  "map_of (mergeInto resolve m ts) x =
     fold (pickStep resolve) (filter (\<lambda>t. task_id t = x) ts) (map_of m x)"
proof (induction ts arbitrary: m)
  case Nil
  then show ?case by simp
next
  case (Cons t ts)
  show ?case
    by (cases "map_of m (task_id t)")
       (auto simp: Cons.IH Map_get_def Map_set_def update_conv')
qed

lemma dateGt_trans: "dateGt a b \<Longrightarrow> dateGt b c \<Longrightarrow> dateGt a c"
  by (cases a; cases b; cases c) auto

lemma dateGt_asym: "dateGt a b \<Longrightarrow> \<not> dateGt b a"
  by (cases a; cases b) auto

lemma beats_trans: "beats pd so st a b \<Longrightarrow> beats pd so st b c \<Longrightarrow> beats pd so st a c"
  by (cases st) (auto simp: beats_def dest: dateGt_trans)

lemma beats_asym: "beats pd so st a b \<Longrightarrow> \<not> beats pd so st b a"
  by (cases st) (auto simp: beats_def dest: dateGt_asym)

lemma resolver_cases:
  "resolver tie pd so st a b =
     (if beats pd so st a b then a else if beats pd so st b a then b else if tie then a else b)"
  by (cases st)
     (auto simp: resolver_def resolveTaskConflict_def mostRecent_def beats_def dest: dateGt_asym)

lemma resolver_id: "task_id a = task_id b \<Longrightarrow> task_id (resolver tie pd so st a b) = task_id b"
  by (simp add: resolver_cases)

subsection \<open>Keys and ids\<close>

lemma set_update_subset: "set (AList.update k v al) \<subseteq> insert (k, v) (set al)"
  by (induction al) auto

lemma keyed_Map_set: "keyed m \<Longrightarrow> task_id v = k \<Longrightarrow> keyed (Map_set k v m)"
  using set_update_subset [of k v m] by (auto simp: keyed_def Map_set_def)

lemma keyed_fold_set:
  "keyed m \<Longrightarrow> \<forall>(k, v)\<in>set es. task_id v = k \<Longrightarrow> keyed (fold (\<lambda>(k, v) m. Map_set k v m) es m)"
  by (induction es arbitrary: m) (auto simp: keyed_Map_set)

lemma keyed_seedLocal: "keyed (seedLocal localTasks)"
  unfolding seedLocal_def Map_new_def
  by (rule keyed_fold_set) (auto simp: keyed_def)

lemma keyed_lookup: "keyed m \<Longrightarrow> map_of m x = Some v \<Longrightarrow> task_id v = x \<and> v \<in> set (Map_values m)"
  by (force simp: keyed_def Map_values_def dest: map_of_SomeD)

lemma keyed_mergeInto:
  "keyed m \<Longrightarrow> keyed (mergeInto (resolver tie pd so st) m ts)"
proof (induction ts arbitrary: m)
  case Nil
  then show ?case by simp
next
  case (Cons t ts)
  show ?case
  proof (cases "map_of m (task_id t)")
    case None
    then show ?thesis using Cons by (simp add: Map_get_def keyed_Map_set)
  next
    case (Some e)
    then have "task_id e = task_id t" using keyed_lookup [OF Cons.prems] by simp
    then show ?thesis using Cons Some by (simp add: Map_get_def keyed_Map_set resolver_id)
  qed
qed

lemma distinct_Map_set: "distinct (map fst m) \<Longrightarrow> distinct (map fst (Map_set k v m))"
  by (simp add: Map_set_def distinct_update)

lemma distinct_mergeInto: "distinct (map fst m) \<Longrightarrow> distinct (map fst (mergeInto r m ts))"
  by (induction ts arbitrary: m) (auto simp: distinct_Map_set split: option.splits)

lemma distinct_Map_new: "distinct (map fst (Map_new es))"
proof -
  have "distinct (map fst m) \<Longrightarrow> distinct (map fst (fold (\<lambda>(k, v) m. Map_set k v m) es m))"
    for m :: "('a \<times> 'b) list"
    by (induction es arbitrary: m) (auto simp: distinct_Map_set)
  then show ?thesis by (simp add: Map_new_def)
qed

lemma keyed_ids: "keyed m \<Longrightarrow> map task_id (Map_values m) = map fst m"
  by (induction m) (auto simp: keyed_def Map_values_def)

lemma distinct_ids_mergeTasks:
  "distinct (map task_id (Map_values (mergeTasks (resolver tie pd so st) localTasks localBranchTasks remoteTasks)))"
proof -
  let ?m = "mergeTasks (resolver tie pd so st) localTasks localBranchTasks remoteTasks"
  have "keyed ?m"
    unfolding mergeTasks_def by (intro keyed_mergeInto keyed_seedLocal)
  moreover have "distinct (map fst ?m)"
    unfolding mergeTasks_def seedLocal_def by (intro distinct_mergeInto distinct_Map_new)
  ultimately show ?thesis by (simp add: keyed_ids)
qed

lemmas merge_eval =
  mergeTasks_def mergeTasksRemoteFirst_def seedLocal_def Map_new_def Map_get_def Map_set_def
  Map_values_def resolver_def resolveTaskConflict_def mostRecent_def statusRank_def
  taskTimestamp_def exampleTask_def exampleStatuses_def

lemmas example_tasks = localCopy_def branchCopy_def remoteCopy_def remoteDone_def remoteOther_def

subsection \<open>One record per id\<close>

text \<open>
  Claim C7. Whenever \<^verbatim>\<open>loadTasks\<close> returns a list, no two tasks of the list have the same
  \<^verbatim>\<open>id\<close>: the merged map holds one value per key, every value is stored under its own
  id (the resolver returns one of its two arguments), and the final filter only removes
  tasks.
\<close>

theorem loadTasks_unique_ids:
  assumes "loadTasks tie pd ds config aborted localTasks remoteTasks localBranchTasks entries = Inr result"
  shows "distinct (map task_id result)"
proof -
  let ?tasks = "Map_values (mergeTasks (resolver tie pd (loadedStatuses ds config) (loadedStrategy config))
                  localTasks localBranchTasks remoteTasks)"
  have d: "distinct (map task_id ?tasks)" by (rule distinct_ids_mergeTasks)
  have "result = ?tasks \<or> (\<exists>latest. result = filterTasksByStateSnapshots ?tasks latest)"
    using assms by (auto simp: loadTasks_def Let_def split: if_splits)
  then show ?thesis
    using d by (auto simp: filterTasksByStateSnapshots_def distinct_map_filter)
qed

theorem loadTasks_unique_ids_witness:
  "loadTasks True noDate exampleStatuses None False [localCopy] [remoteCopy, remoteOther] [branchCopy] []
     = Inr [branchCopy, remoteOther]
   \<and> distinct (map task_id [branchCopy, remoteOther])"
proof -
  have h: "loadTasks True noDate exampleStatuses None False [localCopy] [remoteCopy, remoteOther] [branchCopy] []
             = Inr [branchCopy, remoteOther]"
    by (simp add: loadTasks_def loadedStatuses_def loadedStrategy_def crossBranchDisabled_def
          filterTasksByStateSnapshots_def buildLatestStateMap_def update_def localEntry_def
          localLastModified_def merge_eval example_tasks)
  from h loadTasks_unique_ids [OF h] show ?thesis by (rule conjI)
qed

subsection \<open>Order of the two collections\<close>

lemma fold_pick_winner:
  assumes "\<forall>a\<in>set (s # cs). \<forall>b\<in>set (s # cs). a \<noteq> b \<longrightarrow> beats pd so st a b \<or> beats pd so st b a"
  shows "\<exists>w. fold (pickStep (resolver tie pd so st)) cs (Some s) = Some w \<and> w \<in> set (s # cs)
           \<and> (\<forall>c\<in>set (s # cs). c = w \<or> beats pd so st w c)"
  using assms
proof (induction cs arbitrary: s)
  case Nil
  then show ?case by simp
next
  case (Cons c cs)
  let ?s' = "resolver tie pd so st s c"
  have in': "?s' = s \<or> ?s' = c" by (simp add: resolver_cases)
  have tot': "\<forall>a\<in>set (?s' # cs). \<forall>b\<in>set (?s' # cs). a \<noteq> b \<longrightarrow> beats pd so st a b \<or> beats pd so st b a"
    using Cons.prems in' by auto
  from Cons.IH [OF tot'] obtain w where
    w: "fold (pickStep (resolver tie pd so st)) cs (Some ?s') = Some w"
       "w \<in> set (?s' # cs)" "\<forall>c\<in>set (?s' # cs). c = w \<or> beats pd so st w c"
    by blast
  have s_le: "s = ?s' \<or> beats pd so st ?s' s"
    using Cons.prems by (auto simp: resolver_cases)
  have c_le: "c = ?s' \<or> beats pd so st ?s' c"
    using Cons.prems by (auto simp: resolver_cases)
  have w_s': "?s' = w \<or> beats pd so st w ?s'" using w(3) by simp
  have "s = w \<or> beats pd so st w s" using s_le w_s' by (metis beats_trans)
  moreover have "c = w \<or> beats pd so st w c" using c_le w_s' by (metis beats_trans)
  moreover have "w \<in> set (s # c # cs)" using w(2) in' by auto
  ultimately show ?case using w(1) w(3) by auto
qed

lemma fold_pick_winner_opt:
  assumes "\<forall>a\<in>set (optList i @ cs). \<forall>b\<in>set (optList i @ cs). a \<noteq> b \<longrightarrow> beats pd so st a b \<or> beats pd so st b a"
    and "optList i @ cs \<noteq> []"
  shows "\<exists>w. fold (pickStep (resolver tie pd so st)) cs i = Some w \<and> w \<in> set (optList i @ cs)
           \<and> (\<forall>c\<in>set (optList i @ cs). c = w \<or> beats pd so st w c)"
proof (cases i)
  case (Some s)
  then show ?thesis using fold_pick_winner [of s cs pd so st tie] assms by simp
next
  case None
  then obtain c cs' where cs: "cs = c # cs'" using assms(2) by (cases cs) auto
  then show ?thesis using fold_pick_winner [of c cs' pd so st tie] assms None by simp
qed

lemma fold_pick_order:
  assumes tot: "\<forall>a\<in>set (optList i @ cs). \<forall>b\<in>set (optList i @ cs). a \<noteq> b \<longrightarrow> beats pd so st a b \<or> beats pd so st b a"
    and eq: "set cs' = set cs"
  shows "fold (pickStep (resolver tie pd so st)) cs' i = fold (pickStep (resolver tie pd so st)) cs i"
proof (cases "optList i @ cs = []")
  case True
  then have "cs = []" "cs' = []" using eq by auto
  then show ?thesis by simp
next
  case False
  then have ne': "optList i @ cs' \<noteq> []" using eq by (cases i) auto
  have set_eq: "set (optList i @ cs') = set (optList i @ cs)" using eq by simp
  have tot': "\<forall>a\<in>set (optList i @ cs'). \<forall>b\<in>set (optList i @ cs'). a \<noteq> b \<longrightarrow> beats pd so st a b \<or> beats pd so st b a"
    using tot unfolding set_eq .
  from fold_pick_winner_opt [OF tot False, of tie] obtain w where
    w: "fold (pickStep (resolver tie pd so st)) cs i = Some w" "w \<in> set (optList i @ cs)"
       "\<forall>c\<in>set (optList i @ cs). c = w \<or> beats pd so st w c" by blast
  from fold_pick_winner_opt [OF tot' ne', of tie] obtain w' where
    w': "fold (pickStep (resolver tie pd so st)) cs' i = Some w'" "w' \<in> set (optList i @ cs')"
       "\<forall>c\<in>set (optList i @ cs'). c = w' \<or> beats pd so st w' c" by blast
  have "w' = w"
  proof (rule ccontr)
    assume "w' \<noteq> w"
    then have "beats pd so st w w'" "beats pd so st w' w"
      using w w' set_eq by auto
    then show False using beats_asym by blast
  qed
  then show ?thesis using w(1) w'(1) by simp
qed

lemma mergeInto_order_no_ties:
  assumes k: "keyed m"
    and tot: "\<forall>a\<in>set (Map_values m) \<union> set localBranchTasks \<union> set remoteTasks.
           \<forall>b\<in>set (Map_values m) \<union> set localBranchTasks \<union> set remoteTasks.
             task_id a = task_id b \<longrightarrow> a \<noteq> b \<longrightarrow> beats pd so st a b \<or> beats pd so st b a"
  shows "map_of (mergeInto (resolver tie pd so st) (mergeInto (resolver tie pd so st) m localBranchTasks) remoteTasks)
       = map_of (mergeInto (resolver tie pd so st) (mergeInto (resolver tie pd so st) m remoteTasks) localBranchTasks)"
proof
  fix x
  let ?C = "set (Map_values m) \<union> set localBranchTasks \<union> set remoteTasks"
  let ?i = "map_of m x"
  let ?B = "filter (\<lambda>t. task_id t = x) localBranchTasks"
  let ?R = "filter (\<lambda>t. task_id t = x) remoteTasks"
  have seed_id: "\<forall>v\<in>set (optList ?i). task_id v = x \<and> v \<in> set (Map_values m)"
    using keyed_lookup [OF k, of x] by (cases ?i) auto
  have mem: "\<forall>a\<in>set (optList ?i @ (?B @ ?R)). task_id a = x \<and> a \<in> ?C"
    using seed_id by auto
  have tot': "\<forall>a\<in>set (optList ?i @ (?B @ ?R)). \<forall>b\<in>set (optList ?i @ (?B @ ?R)).
               a \<noteq> b \<longrightarrow> beats pd so st a b \<or> beats pd so st b a"
  proof (intro ballI impI)
    fix a b
    assume a: "a \<in> set (optList ?i @ (?B @ ?R))" and b: "b \<in> set (optList ?i @ (?B @ ?R))"
      and ne: "a \<noteq> b"
    from bspec [OF mem a] bspec [OF mem b] have ids: "task_id a = task_id b" by simp
    from bspec [OF mem a] have a': "a \<in> ?C" by (rule conjunct2)
    from bspec [OF mem b] have b': "b \<in> ?C" by (rule conjunct2)
    have "task_id a = task_id b \<longrightarrow> a \<noteq> b \<longrightarrow> beats pd so st a b \<or> beats pd so st b a"
      by (rule bspec [OF bspec [OF tot a'] b'])
    with ids ne show "beats pd so st a b \<or> beats pd so st b a" by (elim impE) assumption+
  qed
  have "fold (pickStep (resolver tie pd so st)) (?R @ ?B) ?i
      = fold (pickStep (resolver tie pd so st)) (?B @ ?R) ?i"
    by (rule fold_pick_order [OF tot']) auto
  then show "map_of (mergeInto (resolver tie pd so st) (mergeInto (resolver tie pd so st) m localBranchTasks) remoteTasks) x
       = map_of (mergeInto (resolver tie pd so st) (mergeInto (resolver tie pd so st) m remoteTasks) localBranchTasks) x"
    by (simp add: map_of_mergeInto)
qed

text \<open>The same for the map of \<^verbatim>\<open>loadAllTasksForStatistics\<close>, which is seeded with the completed tasks as well.\<close>

lemma keyed_seedWithCompleted: "keyed (seedWithCompleted localTasks completedTasks)"
proof -
  have "keyed m \<Longrightarrow>
        keyed (fold (\<lambda>completedTask tasksById.
                 case Map_get tasksById (task_id completedTask) of
                   None \<Rightarrow> Map_set (task_id completedTask) (completedTask\<lparr>source := Some completed\<rparr>) tasksById
                 | Some existing \<Rightarrow> tasksById) cs m)" for cs m
    by (induction cs arbitrary: m) (auto simp: keyed_Map_set split: option.splits)
  then show ?thesis unfolding seedWithCompleted_def using keyed_seedLocal by blast
qed

lemma statistics_merge_order_no_ties:
  assumes "\<forall>a\<in>set (Map_values (seedWithCompleted localTasks completedTasks)) \<union> set localBranchTasks \<union> set remoteTasks.
           \<forall>b\<in>set (Map_values (seedWithCompleted localTasks completedTasks)) \<union> set localBranchTasks \<union> set remoteTasks.
             task_id a = task_id b \<longrightarrow> a \<noteq> b \<longrightarrow> beats pd so st a b \<or> beats pd so st b a"
  shows "map_of (mergeInto (resolver tie pd so st)
                  (mergeInto (resolver tie pd so st) (seedWithCompleted localTasks completedTasks) localBranchTasks)
                  remoteTasks)
       = map_of (mergeInto (resolver tie pd so st)
                  (mergeInto (resolver tie pd so st) (seedWithCompleted localTasks completedTasks) remoteTasks)
                  localBranchTasks)"
  by (rule mergeInto_order_no_ties [OF keyed_seedWithCompleted assms])

text \<open>
  Claim C1, as the specification states it, fails. A copy of \<^verbatim>\<open>task-1\<close> on another local
  branch and a copy on a remote branch with the same status and the same date tie, and
  there is no local copy: whichever copy is folded first is the current winner when the
  other arrives, and the resolver returns one of its two arguments by position. This
  holds for both choices that the resolver has on a tie.
\<close>

theorem merge_order_counterexample:
  "map_of (mergeTasks (resolver True noDate exampleStatuses most_progressed) [] [branchCopy] [remoteCopy]) ''task-1''
     \<noteq> map_of (mergeTasksRemoteFirst (resolver True noDate exampleStatuses most_progressed) [] [branchCopy] [remoteCopy]) ''task-1''
   \<and> map_of (mergeTasks (resolver False noDate exampleStatuses most_progressed) [] [branchCopy] [remoteCopy]) ''task-1''
     \<noteq> map_of (mergeTasksRemoteFirst (resolver False noDate exampleStatuses most_progressed) [] [branchCopy] [remoteCopy]) ''task-1''"
  by (simp add: merge_eval example_tasks)

text \<open>
  Claim C1, amended. The two orders of folding give the same map (the same record under
  every id) provided that no two different records with the same id tie: among the
  seeded local records, the local-branch tasks and the remote tasks, of two different
  records with the same id one beats the other under the resolution strategy.
\<close>

theorem merge_order_no_ties:
  assumes "\<forall>a\<in>set (Map_values (seedLocal localTasks)) \<union> set localBranchTasks \<union> set remoteTasks.
           \<forall>b\<in>set (Map_values (seedLocal localTasks)) \<union> set localBranchTasks \<union> set remoteTasks.
             task_id a = task_id b \<longrightarrow> a \<noteq> b \<longrightarrow> beats pd so st a b \<or> beats pd so st b a"
  shows "map_of (mergeTasks (resolver tie pd so st) localTasks localBranchTasks remoteTasks)
       = map_of (mergeTasksRemoteFirst (resolver tie pd so st) localTasks localBranchTasks remoteTasks)"
  unfolding mergeTasks_def mergeTasksRemoteFirst_def
  by (rule mergeInto_order_no_ties [OF keyed_seedLocal assms])

theorem merge_order_no_ties_witness:
  "map_of (mergeTasks (resolver True noDate exampleStatuses most_progressed)
             [localCopy] [branchCopy] [remoteDone, remoteOther])
   = map_of (mergeTasksRemoteFirst (resolver True noDate exampleStatuses most_progressed)
             [localCopy] [branchCopy] [remoteDone, remoteOther])"
proof (rule merge_order_no_ties)
  show "\<forall>a\<in>set (Map_values (seedLocal [localCopy])) \<union> set [branchCopy] \<union> set [remoteDone, remoteOther].
        \<forall>b\<in>set (Map_values (seedLocal [localCopy])) \<union> set [branchCopy] \<union> set [remoteDone, remoteOther].
          task_id a = task_id b \<longrightarrow> a \<noteq> b \<longrightarrow>
          beats noDate exampleStatuses most_progressed a b \<or> beats noDate exampleStatuses most_progressed b a"
    by (simp add: beats_def merge_eval example_tasks)
qed

section \<open>Properties of the state snapshots\<close>

lemma map_of_update:
  "map_of (update e m) x = (if entry_id e = x then keepStep e (map_of m x) else map_of m x)"
  by (cases "map_of m (entry_id e)") (auto simp: update_def Map_get_def Map_set_def update_conv')

lemma map_of_fold_update:
  "map_of (fold update es m) x = fold keepStep (filter (\<lambda>e. entry_id e = x) es) (map_of m x)"
  by (induction es arbitrary: m) (simp_all add: map_of_update)

lemma buildLatestStateMap_fold:
  "buildLatestStateMap pd stateEntries localTasks = fold update (stateCandidates pd stateEntries localTasks) []"
proof -
  have "fold (\<lambda>task latest. if task_id task = [] then latest else update (localEntry pd task) latest) ts m
      = fold update (map (localEntry pd) (filter (\<lambda>task. task_id task \<noteq> []) ts)) m" for ts m
    by (induction ts arbitrary: m) simp_all
  then show ?thesis by (simp add: buildLatestStateMap_def stateCandidates_def)
qed

lemma dateGe_refl: "isValidDate a \<Longrightarrow> dateGe a a"
  by (cases a) auto

lemma dateGt_Ge: "isValidDate a \<Longrightarrow> isValidDate b \<Longrightarrow> dateGt a b \<longleftrightarrow> \<not> dateGe b a"
  by (cases a; cases b) auto

lemma dateGe_trans: "dateGe a b \<Longrightarrow> dateGe b c \<Longrightarrow> dateGe a c"
  by (cases a; cases b; cases c) auto

lemma find_append: "List.find P (xs @ ys) = (case List.find P xs of None \<Rightarrow> List.find P ys | Some x \<Rightarrow> Some x)"
  by (induction xs) auto

lemma fold_keepStep_Some: "fold keepStep es (Some c) \<noteq> None"
  by (induction es arbitrary: c) auto

lemma fold_keepStep_None: "fold keepStep es None = None \<Longrightarrow> es = []"
  by (cases es) (auto simp: fold_keepStep_Some)

lemma dateGt_Ge_trans: "dateGt a b \<Longrightarrow> dateGe b c \<Longrightarrow> dateGt a c"
  by (cases a; cases b; cases c) auto

lemma dateGt_not_Ge: "dateGt a b \<Longrightarrow> \<not> dateGe b a"
  by (cases a; cases b) auto

lemma not_dateGt_Ge: "isValidDate a \<Longrightarrow> isValidDate b \<Longrightarrow> \<not> dateGt a b \<Longrightarrow> dateGe b a"
  by (cases a; cases b) auto

lemma dateGt_imp_Ge: "dateGt a b \<Longrightarrow> dateGe a b"
  by (cases a; cases b) auto

lemma fold_keepStep_freshest:
  assumes "\<forall>e\<in>set es. isValidDate (entry_lastModified e)"
  shows "fold keepStep es None = freshest es"
  using assms
proof (induction es rule: rev_induct)
  case Nil
  then show ?case by (simp add: freshest_def)
next
  case (snoc e es)
  let ?lm = entry_lastModified
  let ?P = "\<lambda>x. \<forall>e'\<in>set es. dateGe (?lm x) (?lm e')"
  let ?P' = "\<lambda>x. \<forall>e'\<in>set (es @ [e]). dateGe (?lm x) (?lm e')"
  have ve: "isValidDate (?lm e)" using snoc.prems by simp
  have vs: "\<forall>x\<in>set es. isValidDate (?lm x)" using snoc.prems by simp
  have IH: "fold keepStep es None = freshest es" using snoc.IH vs by simp
  show ?case
  proof (cases "freshest es")
    case None
    then have "es = []" using IH fold_keepStep_None by simp
    then show ?thesis using ve by (simp add: freshest_def dateGe_refl)
  next
    case (Some cur)
    then obtain i where i: "i < length es" "?P (es ! i)" "cur = es ! i" "\<forall>j<i. \<not> ?P (es ! j)"
      unfolding freshest_def find_Some_iff by blast
    have cur_in: "cur \<in> set es" using i by simp
    have vcur: "isValidDate (?lm cur)" using vs cur_in by blast
    have cur_max: "\<forall>e'\<in>set es. dateGe (?lm cur) (?lm e')" using i by simp
    have lhs: "fold keepStep (es @ [e]) None
                 = (if dateGt (?lm e) (?lm cur) then Some e else Some cur)"
      using IH Some by simp
    show ?thesis
    proof (cases "dateGt (?lm e) (?lm cur)")
      case True
      have "\<forall>x\<in>set es. \<not> ?P' x"
      proof
        fix x assume "x \<in> set es"
        then have "dateGe (?lm cur) (?lm x)" using cur_max by blast
        then have "dateGt (?lm e) (?lm x)" using True dateGt_Ge_trans by blast
        then show "\<not> ?P' x" using dateGt_not_Ge by auto
      qed
      then have none: "List.find ?P' es = None" by (simp add: find_None_iff)
      have "?P' e"
      proof
        fix e' assume "e' \<in> set (es @ [e])"
        then consider "e' \<in> set es" | "e' = e" by auto
        then show "dateGe (?lm e) (?lm e')"
        proof cases
          case 1
          then have "dateGe (?lm cur) (?lm e')" using cur_max by blast
          then show ?thesis using True dateGt_Ge_trans dateGt_imp_Ge by blast
        next
          case 2
          then show ?thesis using ve dateGe_refl by simp
        qed
      qed
      then have "freshest (es @ [e]) = Some e"
        unfolding freshest_def find_append using none by simp
      then show ?thesis using lhs True by simp
    next
      case False
      have ge: "dateGe (?lm cur) (?lm e)" using False ve vcur not_dateGt_Ge by blast
      have Pi: "?P' (es ! i)" using i(2) i(3) ge by auto
      have before: "\<forall>j<i. \<not> ?P' (es ! j)" using i(4) by auto
      have "List.find ?P' es = Some cur"
        unfolding find_Some_iff using i(1) i(3) Pi before by blast
      then have "freshest (es @ [e]) = Some cur"
        unfolding freshest_def find_append by simp
      then show ?thesis using lhs False by simp
    qed
  qed
qed

lemma latest_state_is_freshest:
  assumes "\<forall>e\<in>set (stateCandidates pd stateEntries localTasks). isValidDate (entry_lastModified e)"
  shows "Map_get (buildLatestStateMap pd stateEntries localTasks) x
       = freshest (filter (\<lambda>e. entry_id e = x) (stateCandidates pd stateEntries localTasks))"
  using assms
  by (simp add: Map_get_def buildLatestStateMap_fold map_of_fold_update fold_keepStep_freshest)

lemma filter_by_snapshots:
  assumes "\<forall>e\<in>set (stateCandidates pd stateEntries localTasks). isValidDate (entry_lastModified e)"
  shows "filterTasksByStateSnapshots tasks (buildLatestStateMap pd stateEntries localTasks)
       = filter (keepsTask (stateCandidates pd stateEntries localTasks)) tasks"
  unfolding filterTasksByStateSnapshots_def keepsTask_def latest_state_is_freshest [OF assms] ..

lemmas snapshot_eval =
  loadTasks_def loadedStatuses_def loadedStrategy_def crossBranchDisabled_def
  filterTasksByStateSnapshots_def buildLatestStateMap_def update_def localEntry_def
  localLastModified_def stateCandidates_def stateCandidatesLocalFirst_def keepsTask_def
  freshest_def archivedEntry_def restoredEntry_def archivedOther_def

text \<open>
  Claim C2, as the specification states it, fails on the tie. The local file of \<^verbatim>\<open>task-1\<close>
  and a scanned entry that found the task archived have the same date. The scanned entry
  was stored first and the local entry is not later, so the scanned entry stays and the
  task is dropped; under the rule of the claim the local entry, of type \<^verbatim>\<open>"task"\<close>,
  would be the freshest and the task would be kept.
\<close>

theorem state_filter_tie_counterexample:
  "loadTasks True noDate exampleStatuses None False [localCopy] [] [] [archivedEntry] = Inr []
   \<and> keepsTask (stateCandidatesLocalFirst noDate [archivedEntry] [localCopy])
        (localCopy\<lparr>source := Some local\<rparr>)
   \<and> Map_values (mergeTasks (resolver True noDate (loadedStatuses exampleStatuses None) (loadedStrategy None))
        [localCopy] [] []) = [localCopy\<lparr>source := Some local\<rparr>]"
  by (simp add: snapshot_eval merge_eval example_tasks)

text \<open>
  Claim C2, amended. When the dates of the scanned entries and of the local files are
  valid, \<^verbatim>\<open>loadTasks\<close> with cross-branch checking enabled returns exactly the merged tasks
  for whose id there is no state entry or the freshest state entry has the type
  \<^verbatim>\<open>"task"\<close>, where the freshest entry is the one with the latest date and, when dates
  tie, the one that was seen first: a scanned entry before the entry of the local file,
  and an earlier scanned entry before a later one. With \<^verbatim>\<open>checkActiveBranches\<close> set to
  false the merged tasks are returned as they are.
\<close>

theorem loadTasks_state_filter:
  assumes "\<not> crossBranchDisabled config \<longrightarrow>
           (\<forall>e\<in>set (stateCandidates pd stateEntries localTasks). isValidDate (entry_lastModified e))"
  shows "loadTasks tie pd ds config False localTasks remoteTasks localBranchTasks stateEntries
       = Inr (if crossBranchDisabled config
              then Map_values (mergeTasks (resolver tie pd (loadedStatuses ds config) (loadedStrategy config))
                     localTasks localBranchTasks remoteTasks)
              else filter (keepsTask (stateCandidates pd stateEntries localTasks))
                     (Map_values (mergeTasks (resolver tie pd (loadedStatuses ds config) (loadedStrategy config))
                        localTasks localBranchTasks remoteTasks)))"
proof (cases "crossBranchDisabled config")
  case True
  then show ?thesis by (simp add: loadTasks_def)
next
  case False
  then have "\<forall>e\<in>set (stateCandidates pd stateEntries localTasks). isValidDate (entry_lastModified e)"
    using assms by simp
  from filter_by_snapshots [OF this] False show ?thesis by (simp add: loadTasks_def)
qed

theorem loadTasks_state_filter_witness:
  "loadTasks True noDate exampleStatuses None False [localCopy] [remoteOther] [] [archivedEntry, restoredEntry, archivedOther]
     = Inr [localCopy\<lparr>source := Some local\<rparr>]
   \<and> filter (keepsTask (stateCandidates noDate [archivedEntry, restoredEntry, archivedOther] [localCopy]))
       (Map_values (mergeTasks (resolver True noDate (loadedStatuses exampleStatuses None) (loadedStrategy None))
          [localCopy] [] [remoteOther]))
     = [localCopy\<lparr>source := Some local\<rparr>]"
proof -
  have v: "\<not> crossBranchDisabled None \<longrightarrow>
           (\<forall>e\<in>set (stateCandidates noDate [archivedEntry, restoredEntry, archivedOther] [localCopy]).
              isValidDate (entry_lastModified e))"
    by (simp add: snapshot_eval example_tasks exampleTask_def)
  have r: "loadTasks True noDate exampleStatuses None False [localCopy] [remoteOther] [] [archivedEntry, restoredEntry, archivedOther]
             = Inr [localCopy\<lparr>source := Some local\<rparr>]"
    by (simp add: snapshot_eval merge_eval example_tasks)
  have d: "\<not> crossBranchDisabled None" by (simp add: crossBranchDisabled_def)
  from loadTasks_state_filter [OF v, of True exampleStatuses "[remoteOther]" "[]"] r d
  show ?thesis by simp
qed
section \<open>Properties of the id generation\<close>

lemma digit_cases: "d < 10 \<Longrightarrow> d = 0 \<or> d = 1 \<or> d = 2 \<or> d = 3 \<or> d = 4 \<or> d = 5 \<or> d = 6 \<or> d = 7 \<or> d = 8 \<or> d = (9::nat)"
  by arith

lemma isDigit_digitChar: "d < 10 \<Longrightarrow> isDigit (digitChar d)"
  using digit_cases [of d] by (auto simp: isDigit_def digitChar_def)

lemma digitVal_digitChar: "d < 10 \<Longrightarrow> digitVal (digitChar d) = d"
  using digit_cases [of d] by (auto simp: digitVal_def digitChar_def)

lemma showNat_digits: "\<forall>c\<in>set (showNat n). isDigit c"
proof (induction n rule: showNat.induct)
  case (1 n)
  then show ?case
    by (subst showNat.simps) (auto simp: isDigit_digitChar)
qed

lemma showNat_nonempty: "showNat n \<noteq> []"
  by (subst showNat.simps) simp

lemma decVal_snoc: "decVal (ds @ [c]) = 10 * decVal ds + digitVal c"
  by (simp add: decVal_def)

lemma decVal_showNat: "decVal (showNat n) = n"
proof (induction n rule: showNat.induct)
  case (1 n)
  show ?case
  proof (cases "n < 10")
    case True
    then show ?thesis by (subst showNat.simps) (simp add: decVal_def digitVal_digitChar)
  next
    case False
    then have "decVal (showNat (n div 10)) = n div 10" using 1 by simp
    then show ?thesis using False
      by (subst showNat.simps) (simp add: decVal_snoc digitVal_digitChar)
  qed
qed

lemma decVal_zeros: "decVal (replicate z CHR ''0'' @ ds) = decVal ds"
proof -
  have "foldl (\<lambda>a c. 10 * a + digitVal c) 0 (replicate z CHR ''0'') = 0"
    by (induction z) (simp_all add: digitVal_def)
  then show ?thesis by (simp add: decVal_def)
qed

lemma takeWhile_all: "\<forall>c\<in>set ds. P c \<Longrightarrow> takeWhile P ds = ds"
  by (induction ds) auto

lemma matchTaskId_generated:
  "matchTaskId (''task-'' @ replicate z CHR ''0'' @ showNat n) = Some (replicate z CHR ''0'' @ showNat n)"
proof -
  have zero: "isDigit CHR ''0''" by (simp add: isDigit_def)
  have "\<forall>c\<in>set (replicate z CHR ''0'' @ showNat n). isDigit c"
    using showNat_digits [of n] zero by auto
  then have tw: "takeWhile isDigit (replicate z CHR ''0'' @ showNat n) = replicate z CHR ''0'' @ showNat n"
    by (rule takeWhile_all)
  show ?thesis
    by (simp add: matchTaskId_def tw showNat_nonempty)
qed

lemma numericPart_generated: "numericPart (''task-'' @ replicate z CHR ''0'' @ showNat n) = Some n"
  unfolding numericPart_def matchTaskId_generated by (simp add: decVal_zeros decVal_showNat)

lemma matchTaskId_digits:
  assumes "matchTaskId i = Some ds"
  shows "ds \<noteq> [] \<and> (\<forall>c\<in>set ds. isDigit c)"
proof -
  have ds: "ds = takeWhile isDigit (drop 5 i)" and ne: "ds \<noteq> []"
    using assms by (auto simp: matchTaskId_def Let_def split: if_splits)
  have "\<forall>c\<in>set (takeWhile isDigit (drop 5 i)). isDigit c"
    by (auto dest: set_takeWhileD)
  with ds ne show ?thesis by simp
qed

lemma digit_plain: "isDigit c \<Longrightarrow> \<not> isSpace c \<and> c \<noteq> CHR ''-'' \<and> c \<noteq> CHR ''+''"
  by (auto simp: isDigit_def isSpace_def)

lemma roundMagnitude_exact: "n \<le> 2 ^ 53 \<Longrightarrow> roundMagnitude n = Some n"
  by (simp add: roundMagnitude_def)

lemma toDouble_exact: "n \<le> 2 ^ 53 \<Longrightarrow> toDouble (int n) = Finite (int n)"
  by (simp add: toDouble_def roundMagnitude_exact)

lemma parseInt_digits:
  assumes "ds \<noteq> []" and "\<forall>c\<in>set ds. isDigit c"
  shows "parseInt ds = toDouble (int (decVal ds))"
proof -
  obtain c cs where ds: "ds = c # cs" using assms(1) by (cases ds) auto
  have c: "\<not> isSpace c \<and> c \<noteq> CHR ''-'' \<and> c \<noteq> CHR ''+''"
    using assms(2) ds digit_plain by simp
  have tw: "takeWhile isDigit ds = ds" using assms(2) by (rule takeWhile_all)
  have dw: "dropWhile isSpace ds = ds" using c ds by simp
  have hd: "hd ds \<noteq> CHR ''-'' \<and> hd ds \<noteq> CHR ''+''" using c ds by simp
  show ?thesis
    unfolding parseInt_def dw Let_def using hd assms(1) by (simp add: tw)
qed

lemma taskNumber_numericPart:
  "taskNumber i = (case numericPart i of None \<Rightarrow> None | Some k \<Rightarrow> Some (toDouble (int k)))"
proof (cases "matchTaskId i")
  case None
  then show ?thesis by (simp add: taskNumber_def numericPart_def)
next
  case (Some ds)
  from matchTaskId_digits [OF Some] have "parseInt ds = toDouble (int (decVal ds))" and "ds \<noteq> []"
    by (simp_all add: parseInt_digits)
  then show ?thesis using Some by (simp add: taskNumber_def numericPart_def)
qed

lemma fold_max_exact:
  assumes "\<forall>i\<in>set ids. \<forall>k. numericPart i = Some k \<longrightarrow> k < 2 ^ 53" and "m < 2 ^ 53"
  shows "\<exists>M. fold (\<lambda>i mx. case taskNumber i of
                              None \<Rightarrow> mx
                            | Some num \<Rightarrow> if numGreater num mx then num else mx) ids (Finite (int m))
                = Finite (int M)
            \<and> m \<le> M \<and> M < 2 ^ 53
            \<and> (\<forall>i\<in>set ids. \<forall>k. numericPart i = Some k \<longrightarrow> k \<le> M)"
  using assms
proof (induction ids arbitrary: m)
  case Nil
  then show ?case by simp
next
  case (Cons i ids)
  let ?step = "\<lambda>i mx. case taskNumber i of
                              None \<Rightarrow> mx
                            | Some num \<Rightarrow> if numGreater num mx then num else mx"
  have rest: "\<forall>i\<in>set ids. \<forall>k. numericPart i = Some k \<longrightarrow> k < 2 ^ 53" using Cons.prems(1) by simp
  show ?case
  proof (cases "numericPart i")
    case None
    then have "?step i (Finite (int m)) = Finite (int m)" by (simp add: taskNumber_numericPart)
    moreover from Cons.IH [OF rest Cons.prems(2)] obtain M where
      "fold ?step ids (Finite (int m)) = Finite (int M)" "m \<le> M" "M < 2 ^ 53"
      "\<forall>i\<in>set ids. \<forall>k. numericPart i = Some k \<longrightarrow> k \<le> M" by blast
    ultimately show ?thesis using None by auto
  next
    case (Some k)
    then have k: "k < 2 ^ 53" using Cons.prems(1) by simp
    define m' where "m' = (if m < k then k else m)"
    have m': "m' < 2 ^ 53" "m \<le> m'" "k \<le> m'" using k Cons.prems(2) by (simp_all add: m'_def)
    have "toDouble (int k) = Finite (int k)" using k by (simp add: toDouble_exact)
    then have s: "?step i (Finite (int m)) = Finite (int m')"
      using Some by (simp add: taskNumber_numericPart m'_def)
    from Cons.IH [OF rest m'(1)] obtain M where
      M: "fold ?step ids (Finite (int m')) = Finite (int M)" "m' \<le> M" "M < 2 ^ 53"
      "\<forall>i\<in>set ids. \<forall>k. numericPart i = Some k \<longrightarrow> k \<le> M" by blast
    have "fold ?step (i # ids) (Finite (int m)) = Finite (int M)" using s M(1) by simp
    moreover have "m \<le> M" using m'(2) M(2) by simp
    moreover have "\<forall>j\<in>set (i # ids). \<forall>k. numericPart j = Some k \<longrightarrow> k \<le> M"
      using M(4) M(2) m'(3) Some by auto
    ultimately show ?thesis using M(3) by blast
  qed
qed

lemma numberToString_exact:
  assumes "n \<le> 2 ^ 53"
  shows "numberToString (Finite (int n)) = showNat n"
proof -
  have "(2::nat) ^ 53 < 10 ^ 21" by simp
  then have "n < 10 ^ 21" using assms by simp
  then show ?thesis by (simp add: magnitudeToString_def)
qed

lemma plusOne_exact:
  assumes "M < 2 ^ 53"
  shows "plusOne (Finite (int M)) = Finite (int (M + 1))"
proof -
  have "M + 1 \<le> 2 ^ 53" using assms by simp
  then have "toDouble (int (M + 1)) = Finite (int (M + 1))" by (rule toDouble_exact)
  moreover have "int M + 1 = int (M + 1)" by simp
  ultimately show ?thesis by (simp only: plusOne.simps)
qed

lemma generateNextId_form:
  "\<exists>z. generateNextId eq norm config tasks drafts archivedTasks completedTasks None
       = ''task-'' @ replicate z CHR ''0''
           @ numberToString (plusOne (maxTaskNumber (allTaskIds tasks drafts archivedTasks completedTasks)))"
proof (cases "zeroPadded config")
  case None
  then have "generateNextId eq norm config tasks drafts archivedTasks completedTasks None
       = ''task-'' @ replicate 0 CHR ''0''
           @ numberToString (plusOne (maxTaskNumber (allTaskIds tasks drafts archivedTasks completedTasks)))"
    by (simp add: generateNextId_def)
  then show ?thesis by blast
next
  case (Some padding)
  then have "generateNextId eq norm config tasks drafts archivedTasks completedTasks None
       = ''task-''
           @ replicate (padding - length (numberToString (plusOne (maxTaskNumber (allTaskIds tasks drafts archivedTasks completedTasks))))) CHR ''0''
           @ numberToString (plusOne (maxTaskNumber (allTaskIds tasks drafts archivedTasks completedTasks)))"
    by (simp add: generateNextId_def padStart_def Let_def)
  then show ?thesis by blast
qed

text \<open>
  Claim C9, amended. When the number of every id of the content store, the drafts, the
  archived and the completed tasks is below \<open>2^53\<close>, \<^verbatim>\<open>generateNextId\<close> without a parent
  returns \<^verbatim>\<open>task-\<close> followed by zeros (none without padding) and the decimal digits of a
  number \<open>n\<close>; \<open>n\<close> is greater than the number of every one of these ids, and the id
  returned is the id of none of these tasks. The four lists are arbitrary, so this holds
  when the content store is empty and every task is archived or completed.
\<close>

theorem generateNextId_fresh:
  assumes "\<forall>t\<in>set tasks \<union> set drafts \<union> set archivedTasks \<union> set completedTasks.
             \<forall>k. numericPart (task_id t) = Some k \<longrightarrow> k < 2 ^ 53"
  shows "\<exists>n z. generateNextId eq norm config tasks drafts archivedTasks completedTasks None
                 = ''task-'' @ replicate z CHR ''0'' @ showNat n
             \<and> (\<forall>t\<in>set tasks \<union> set drafts \<union> set archivedTasks \<union> set completedTasks.
                  \<forall>k. numericPart (task_id t) = Some k \<longrightarrow> k < n)
             \<and> (\<forall>t\<in>set tasks \<union> set drafts \<union> set archivedTasks \<union> set completedTasks.
                  task_id t \<noteq> generateNextId eq norm config tasks drafts archivedTasks completedTasks None)"
proof -
  let ?all = "set tasks \<union> set drafts \<union> set archivedTasks \<union> set completedTasks"
  let ?ids = "allTaskIds tasks drafts archivedTasks completedTasks"
  let ?g = "generateNextId eq norm config tasks drafts archivedTasks completedTasks None"
  have ids: "set ?ids = task_id ` ?all" by (auto simp: allTaskIds_def)
  have "\<forall>i\<in>set ?ids. \<forall>k. numericPart i = Some k \<longrightarrow> k < 2 ^ 53"
    unfolding ids using assms by blast
  from fold_max_exact [OF this, of 0] obtain M where
    M: "maxTaskNumber ?ids = Finite (int M)" "M < 2 ^ 53"
       "\<forall>i\<in>set ?ids. \<forall>k. numericPart i = Some k \<longrightarrow> k \<le> M"
    unfolding maxTaskNumber_def by auto
  have "M + 1 \<le> 2 ^ 53" using M(2) by simp
  then have "numberToString (Finite (int (M + 1))) = showNat (M + 1)" by (rule numberToString_exact)
  then have "numberToString (plusOne (maxTaskNumber ?ids)) = showNat (M + 1)"
    unfolding M(1) plusOne_exact [OF M(2)] .
  with generateNextId_form [of eq norm config tasks drafts archivedTasks completedTasks]
  obtain z where z: "?g = ''task-'' @ replicate z CHR ''0'' @ showNat (M + 1)" by auto
  have upper: "\<forall>t\<in>?all. \<forall>k. numericPart (task_id t) = Some k \<longrightarrow> k < M + 1"
    using M(3) unfolding ids by (auto simp: less_Suc_eq_le)
  have fresh: "\<forall>t\<in>?all. task_id t \<noteq> ?g"
  proof
    fix t assume t: "t \<in> ?all"
    show "task_id t \<noteq> ?g"
    proof
      assume "task_id t = ?g"
      then have "task_id t = ''task-'' @ replicate z CHR ''0'' @ showNat (M + 1)" unfolding z .
      then have "numericPart (task_id t) = Some (M + 1)" by (simp only: numericPart_generated)
      with upper t have "M + 1 < M + 1" by blast
      then show False by simp
    qed
  qed
  from z upper fresh show ?thesis by blast
qed

text \<open>
  Claim C9, as stated, fails from \<open>2^53\<close> on. The maximum and its successor are doubles:
  \<open>2^53 + 1\<close> is not a double and is rounded to \<open>2^53\<close>, so with the task
  \<^verbatim>\<open>task-9007199254740992\<close> in the content store the id returned is the id of that task.
\<close>

theorem generateNextId_collision_counterexample:
  "generateNextId sameId keepId None [exampleTask ''task-9007199254740992'' ''To Do''] [] [] [] None
     = ''task-9007199254740992''
   \<and> ''task-9007199254740992'' \<in> set (map task_id [exampleTask ''task-9007199254740992'' ''To Do''])"
proof -
  have n: "taskNumber ''task-9007199254740992'' = Some (Finite 9007199254740992)"
    by (simp add: taskNumber_def matchTaskId_def parseInt_def isDigit_def isSpace_def decVal_def
          digitVal_def toDouble_def roundMagnitude_def)
  have m: "maxTaskNumber (allTaskIds [exampleTask ''task-9007199254740992'' ''To Do''] [] [] [])
             = Finite 9007199254740992"
    by (simp add: maxTaskNumber_def allTaskIds_def exampleTask_def n)
  have p: "plusOne (Finite 9007199254740992) = Finite 9007199254740992"
    by (simp add: toDouble_def roundMagnitude_def Let_def bitLength.simps)
  have s: "numberToString (Finite 9007199254740992) = ''9007199254740992''"
    by (simp add: magnitudeToString_def showNat.simps digitChar_def)
  have g: "generateNextId sameId keepId None [exampleTask ''task-9007199254740992'' ''To Do''] [] [] [] None
     = ''task-9007199254740992''"
    by (simp add: generateNextId_def zeroPadded_def m p s del: plusOne.simps numberToString.simps)
  have "''task-9007199254740992'' \<in> set (map task_id [exampleTask ''task-9007199254740992'' ''To Do''])"
    by (simp add: exampleTask_def)
  with g show ?thesis by (rule conjI)
qed

lemma not_in_image: "\<forall>t\<in>A. f t \<noteq> x \<Longrightarrow> x \<notin> f ` A"
  by blast

lemma showNat_13: "showNat 13 = ''13''"
  by (simp add: showNat.simps [of 13] showNat.simps [of 1] showNat.simps [of "Suc 0"] digitChar_def)

theorem generateNextId_fresh_witness:
  "generateNextId sameId keepId None [exampleTask ''task-3'' ''To Do''] [exampleTask ''task-4'' ''Draft'']
     [exampleTask ''task-7'' ''Done''] [exampleTask ''task-12'' ''Done''] None = ''task-13''
   \<and> ''task-13'' \<notin> task_id ` (set [exampleTask ''task-3'' ''To Do''] \<union> set [exampleTask ''task-4'' ''Draft'']
                                 \<union> set [exampleTask ''task-7'' ''Done''] \<union> set [exampleTask ''task-12'' ''Done''])"
proof -
  let ?g = "generateNextId sameId keepId None [exampleTask ''task-3'' ''To Do''] [exampleTask ''task-4'' ''Draft'']
     [exampleTask ''task-7'' ''Done''] [exampleTask ''task-12'' ''Done''] None"
  let ?all = "set [exampleTask ''task-3'' ''To Do''] \<union> set [exampleTask ''task-4'' ''Draft'']
                \<union> set [exampleTask ''task-7'' ''Done''] \<union> set [exampleTask ''task-12'' ''Done'']"
  have small: "\<forall>t\<in>?all. \<forall>k. numericPart (task_id t) = Some k \<longrightarrow> k < 2 ^ 53"
    by (simp add: numericPart_def matchTaskId_def isDigit_def decVal_def digitVal_def exampleTask_def)
  have m: "maxTaskNumber (allTaskIds [exampleTask ''task-3'' ''To Do''] [exampleTask ''task-4'' ''Draft'']
             [exampleTask ''task-7'' ''Done''] [exampleTask ''task-12'' ''Done'']) = Finite 12"
    by (simp add: maxTaskNumber_def allTaskIds_def exampleTask_def taskNumber_def matchTaskId_def
          parseInt_def isDigit_def isSpace_def decVal_def digitVal_def toDouble_def roundMagnitude_def)
  have e: "?g = ''task-13''"
    by (simp add: generateNextId_def zeroPadded_def m toDouble_def roundMagnitude_def
          magnitudeToString_def showNat_13)
  from generateNextId_fresh [OF small, of sameId keepId None]
  have "\<forall>t\<in>?all. task_id t \<noteq> ?g" by (elim exE conjE)
  then have "\<forall>t\<in>?all. task_id t \<noteq> ''task-13''" unfolding e .
  then have "''task-13'' \<notin> task_id ` ?all" by (rule not_in_image)
  with e show ?thesis by (rule conjI)
qed


section \<open>Properties of reordering\<close>

lemma firstDuplicate_None:
  "firstDuplicate seen ids = None \<longleftrightarrow> distinct ids \<and> set ids \<inter> set seen = {}"
  by (induction ids arbitrary: seen) auto

lemma firstDuplicate_distinct: "firstDuplicate [] ids = None \<longleftrightarrow> distinct ids"
  by (simp add: firstDuplicate_None)

lemma reorderTask_validation:
  "\<not> requestWellFormed params \<Longrightarrow> \<exists>e. reorderTask env params w = (Inl e, w) \<and> isValidationError e"
  by (cases "firstDuplicate [] (trimmedOrderedTaskIds params)")
     (auto simp: reorderTask_def requestWellFormed_def Let_def firstDuplicate_distinct)

lemma reorderTask_well_formed:
  assumes "requestWellFormed params"
  shows "reorderTask env params w =
           (case movedRecord env params w of
              None \<Rightarrow> (Inl (TaskNotFoundWhileReordering (trimmedTaskId params)), w)
            | Some movedTask \<Rightarrow>
                if truthy (branch movedTask)
                then (Inl (TaskInOtherBranch (trimmedTaskId params) (the (branch movedTask))), w)
                else reorderTask env params w)"
proof -
  have d: "firstDuplicate [] (trimmedOrderedTaskIds params) = None"
    using assms by (simp add: requestWellFormed_def firstDuplicate_distinct)
  have ne: "trimmedOrderedTaskIds params \<noteq> []"
    using assms by (auto simp: requestWellFormed_def)
  show ?thesis
  proof (cases "movedRecord env params w")
    case None
    then show ?thesis
      using assms d ne by (simp add: reorderTask_def requestWellFormed_def movedRecord_def Let_def)
  next
    case (Some movedTask)
    show ?thesis
    proof (cases "truthy (branch movedTask)")
      case True
      then show ?thesis
        using assms d ne Some
        by (simp add: reorderTask_def requestWellFormed_def movedRecord_def Let_def)
    next
      case False
      then show ?thesis using Some by simp
    qed
  qed
qed

lemmas reorder_eval =
  requestWellFormed_def movedRecord_def trimmedTaskId_def trimmedOrderedTaskIds_def trim_def
  isSpace_def loadValidTasks_def List.map_filter_def getTask_def exampleEnv_def exampleWorld_def
  sameId_def keepId_def exampleFiles_def

text \<open>
  Claim C5. When the ordered ids, trimmed and without the empty ones, are none, or hold
  an id twice, or do not hold the trimmed id of the task being moved, \<^verbatim>\<open>reorderTask\<close>
  throws one of its validation errors, and the state is the one before the call: no task
  was saved, no file changed, nothing was committed and no callback ran.
\<close>

theorem reorderTask_rejects_malformed:
  assumes "trimmedOrderedTaskIds params = [] \<or> \<not> distinct (trimmedOrderedTaskIds params)
           \<or> trimmedTaskId params \<notin> set (trimmedOrderedTaskIds params)"
  shows "\<exists>e. reorderTask env params w = (Inl e, w) \<and> isValidationError e"
proof (rule reorderTask_validation)
  show "\<not> requestWellFormed params"
    using assms by (auto simp: requestWellFormed_def)
qed

theorem reorderTask_rejects_malformed_witness:
  "reorderTask exampleEnv moveWithDuplicate exampleWorld = (Inl (DuplicateTaskId ''task-2''), exampleWorld)
   \<and> isValidationError (DuplicateTaskId ''task-2'')"
proof -
  have h: "trimmedOrderedTaskIds moveWithDuplicate = [] \<or> \<not> distinct (trimmedOrderedTaskIds moveWithDuplicate)
           \<or> trimmedTaskId moveWithDuplicate \<notin> set (trimmedOrderedTaskIds moveWithDuplicate)"
    by (simp add: reorder_eval moveWithDuplicate_def)
  from reorderTask_rejects_malformed [OF h, of exampleEnv exampleWorld]
  obtain e where e: "reorderTask exampleEnv moveWithDuplicate exampleWorld = (Inl e, exampleWorld)"
    "isValidationError e" by (elim exE conjE)
  have "reorderTask exampleEnv moveWithDuplicate exampleWorld = (Inl (DuplicateTaskId ''task-2''), exampleWorld)"
    by (simp add: reorderTask_def reorder_eval moveWithDuplicate_def Let_def)
  with e show ?thesis by simp
qed

text \<open>
  Claim C6. When the record of the task being moved carries a non-empty \<^verbatim>\<open>branch\<close>,
  \<^verbatim>\<open>reorderTask\<close> throws and the state is the one before the call; for a request that
  passes the validation the error names the task and the branch. When no record with the
  id of the task being moved can be loaded, \<^verbatim>\<open>reorderTask\<close> throws and the state is the
  one before the call; for a request that passes the validation the error is the
  not-found error for that id.
\<close>

theorem reorderTask_cross_branch_and_not_found:
  "(movedRecord env params w = Some movedTask \<and> truthy (branch movedTask) \<longrightarrow>
      (\<exists>e. reorderTask env params w = (Inl e, w))
      \<and> (requestWellFormed params \<longrightarrow>
           reorderTask env params w
             = (Inl (TaskInOtherBranch (trimmedTaskId params) (the (branch movedTask))), w)))
   \<and> (movedRecord env params w = None \<longrightarrow>
      (\<exists>e. reorderTask env params w = (Inl e, w))
      \<and> (requestWellFormed params \<longrightarrow>
           reorderTask env params w = (Inl (TaskNotFoundWhileReordering (trimmedTaskId params)), w)))"
proof (cases "requestWellFormed params")
  case True
  from reorderTask_well_formed [OF True, of env w] True show ?thesis
    by (cases "movedRecord env params w") auto
next
  case False
  from reorderTask_validation [OF False, of env w] False show ?thesis by auto
qed

theorem reorderTask_cross_branch_and_not_found_witness:
  "reorderTask exampleEnv moveBranchTask exampleWorld
     = (Inl (TaskInOtherBranch ''task-1'' ''feature''), exampleWorld)
   \<and> reorderTask exampleEnv moveUnknownTask exampleWorld
     = (Inl (TaskNotFoundWhileReordering ''task-9''), exampleWorld)"
proof -
  have m1: "movedRecord exampleEnv moveBranchTask exampleWorld = Some branchCopy \<and> truthy (branch branchCopy)"
    by (simp add: reorder_eval moveBranchTask_def example_tasks exampleTask_def localTwo_def localThree_def)
  have w1: "requestWellFormed moveBranchTask"
    by (simp add: reorder_eval moveBranchTask_def)
  have m2: "movedRecord exampleEnv moveUnknownTask exampleWorld = None"
    by (simp add: reorder_eval moveUnknownTask_def example_tasks exampleTask_def localTwo_def localThree_def)
  have w2: "requestWellFormed moveUnknownTask"
    by (simp add: reorder_eval moveUnknownTask_def)
  have b: "the (branch branchCopy) = ''feature''" "trimmedTaskId moveBranchTask = ''task-1''"
    "trimmedTaskId moveUnknownTask = ''task-9''"
    by (simp_all add: reorder_eval moveBranchTask_def moveUnknownTask_def example_tasks exampleTask_def)
  have r1: "reorderTask exampleEnv moveBranchTask exampleWorld
     = (Inl (TaskInOtherBranch (trimmedTaskId moveBranchTask) (the (branch branchCopy))), exampleWorld)"
    by (rule reorderTask_cross_branch_and_not_found
          [of exampleEnv moveBranchTask exampleWorld branchCopy,
           THEN conjunct1, THEN mp, OF m1, THEN conjunct2, THEN mp, OF w1])
  have r2: "reorderTask exampleEnv moveUnknownTask exampleWorld
     = (Inl (TaskNotFoundWhileReordering (trimmedTaskId moveUnknownTask)), exampleWorld)"
    by (rule reorderTask_cross_branch_and_not_found
          [of exampleEnv moveUnknownTask exampleWorld branchCopy,
           THEN conjunct2, THEN mp, OF m2, THEN conjunct2, THEN mp, OF w2])
  from r1 r2 show ?thesis unfolding b by (rule conjI)
qed

text \<open>
  A request that is accepted, for comparison: \<^verbatim>\<open>task-3\<close> is moved in front of \<^verbatim>\<open>task-2\<close>,
  the two ordinals collide and are rebalanced, and both tasks are saved.
\<close>

lemma reorderTask_example_moves:
  "map task_id (saved (snd (reorderTask exampleEnv moveLocalTask exampleWorld))) = [''task-3'', ''task-2'']
   \<and> map ordinal (saved (snd (reorderTask exampleEnv moveLocalTask exampleWorld))) = [Some 1000, Some 2000]
   \<and> map updatedDate (saved (snd (reorderTask exampleEnv moveLocalTask exampleWorld)))
       = [Some ''2025-03-01 12:00'', Some ''2025-03-01 12:00'']"
  by code_simp

section \<open>Properties of the sequences\<close>

lemma layering_waves:
  "layering A P k R = (seqs, uns) \<Longrightarrow>
   \<forall>s\<in>set seqs. k \<le> seq_index s \<and> set (seq_tasks s) \<subseteq> set R \<and>
     (\<forall>t\<in>set (seq_tasks s). \<forall>d\<in>set (dependencies t). d \<in> set A \<longrightarrow>
        d \<in> set P \<or> (\<exists>s'\<in>set seqs. seq_index s' < seq_index s \<and> d \<in> task_id ` set (seq_tasks s')))"
proof (induction A P k R arbitrary: seqs uns rule: layering.induct)
  case (1 A P k R)
  let ?ready = "filter (depsSatisfied A P) R"
  show ?case
  proof (cases "?ready = []")
    case True
    then have "seqs = []" using "1.prems" by (simp add: layering.simps [of A P k R])
    then show ?thesis by simp
  next
    case False
    obtain seqs' uns' where rec:
      "layering A (P @ map task_id ?ready) (Suc k) (filter (\<lambda>t. \<not> depsSatisfied A P t) R) = (seqs', uns')"
      by (cases "layering A (P @ map task_id ?ready) (Suc k) (filter (\<lambda>t. \<not> depsSatisfied A P t) R)") auto
    let ?first = "\<lparr>seq_index = k, seq_tasks = ?ready\<rparr>"
    have seqs: "seqs = ?first # seqs'"
      using "1.prems" False rec by (simp add: layering.simps [of A P k R])
    note IH = "1.IH" [OF False rec]
    show ?thesis
    proof
      fix s assume s: "s \<in> set seqs"
      show "k \<le> seq_index s \<and> set (seq_tasks s) \<subseteq> set R \<and>
        (\<forall>t\<in>set (seq_tasks s). \<forall>d\<in>set (dependencies t). d \<in> set A \<longrightarrow>
           d \<in> set P \<or> (\<exists>s'\<in>set seqs. seq_index s' < seq_index s \<and> d \<in> task_id ` set (seq_tasks s')))"
      proof (cases "s = ?first")
        case True
        then show ?thesis by (auto simp: depsSatisfied_def)
      next
        case False
        then have s': "s \<in> set seqs'" using s seqs by simp
        from IH s' have k: "Suc k \<le> seq_index s" and sub: "set (seq_tasks s) \<subseteq> set (filter (\<lambda>t. \<not> depsSatisfied A P t) R)"
          and deps: "\<forall>t\<in>set (seq_tasks s). \<forall>d\<in>set (dependencies t). d \<in> set A \<longrightarrow>
              d \<in> set (P @ map task_id ?ready)
              \<or> (\<exists>s'\<in>set seqs'. seq_index s' < seq_index s \<and> d \<in> task_id ` set (seq_tasks s'))"
          by blast+
        have "\<forall>t\<in>set (seq_tasks s). \<forall>d\<in>set (dependencies t). d \<in> set A \<longrightarrow>
           d \<in> set P \<or> (\<exists>s'\<in>set seqs. seq_index s' < seq_index s \<and> d \<in> task_id ` set (seq_tasks s'))"
        proof (intro ballI impI)
          fix t d assume t: "t \<in> set (seq_tasks s)" and d: "d \<in> set (dependencies t)" and a: "d \<in> set A"
          have "d \<in> set (P @ map task_id ?ready)
              \<or> (\<exists>s'\<in>set seqs'. seq_index s' < seq_index s \<and> d \<in> task_id ` set (seq_tasks s'))"
            by (rule bspec [OF bspec [OF deps t] d, THEN mp, OF a])
          then consider "d \<in> set P" | "d \<in> task_id ` set ?ready"
            | "\<exists>s'\<in>set seqs'. seq_index s' < seq_index s \<and> d \<in> task_id ` set (seq_tasks s')"
            by (auto simp del: set_filter)
          then show "d \<in> set P \<or> (\<exists>s'\<in>set seqs. seq_index s' < seq_index s \<and> d \<in> task_id ` set (seq_tasks s'))"
          proof cases
            case 1
            then show ?thesis by simp
          next
            case 2
            have "?first \<in> set seqs" "seq_index ?first < seq_index s" using seqs k by simp_all
            with 2 show ?thesis by (intro disjI2 bexI [of _ ?first]) simp_all
          next
            case 3
            then show ?thesis using seqs by auto
          qed
        qed
        then show ?thesis using k sub by auto
      qed
    qed
  qed
qed

lemma layering_first_wave:
  assumes "t \<in> set R" and "depsSatisfied A P t" and "layering A P k R = (seqs, uns)"
  shows "\<exists>s\<in>set seqs. seq_index s = k \<and> t \<in> set (seq_tasks s)"
proof -
  let ?ready = "filter (depsSatisfied A P) R"
  have ne: "?ready \<noteq> []" using assms(1,2) by (auto simp: filter_empty_conv)
  obtain seqs' uns' where rec:
    "layering A (P @ map task_id ?ready) (Suc k) (filter (\<lambda>t. \<not> depsSatisfied A P t) R) = (seqs', uns')"
    by (cases "layering A (P @ map task_id ?ready) (Suc k) (filter (\<lambda>t. \<not> depsSatisfied A P t) R)") auto
  have "seqs = \<lparr>seq_index = k, seq_tasks = ?ready\<rparr> # seqs'"
    using assms(3) ne rec by (simp add: layering.simps [of A P k R])
  then show ?thesis using assms(1,2) by simp
qed

text \<open>
  Claim C4. In the result of \<^verbatim>\<open>computeSequences\<close>, every dependency of a sequenced task
  that is the id of an active task is the id of a task in a sequence with a smaller
  index; and a task none of whose dependencies is the id of an active task is in the
  sequence with index 1.
\<close>

theorem computeSequences_waves:
  assumes "computeSequences activeTasks = (unsequenced, sequences)"
  shows "(\<forall>s\<in>set sequences. \<forall>t\<in>set (seq_tasks s). \<forall>d\<in>set (dependencies t).
            d \<in> task_id ` set activeTasks \<longrightarrow>
            (\<exists>s'\<in>set sequences. seq_index s' < seq_index s \<and> d \<in> task_id ` set (seq_tasks s')))
       \<and> (\<forall>t\<in>set activeTasks.
            (\<forall>d\<in>set (dependencies t). d \<notin> task_id ` set activeTasks) \<longrightarrow>
            (\<exists>s\<in>set sequences. seq_index s = 1 \<and> t \<in> set (seq_tasks s)))"
proof -
  have lay: "layering (map task_id activeTasks) [] 1 activeTasks = (sequences, unsequenced)"
    using assms by (auto simp: computeSequences_def split: prod.splits)
  have waves: "\<forall>s\<in>set sequences. \<forall>t\<in>set (seq_tasks s). \<forall>d\<in>set (dependencies t).
            d \<in> task_id ` set activeTasks \<longrightarrow>
            (\<exists>s'\<in>set sequences. seq_index s' < seq_index s \<and> d \<in> task_id ` set (seq_tasks s'))"
    using layering_waves [OF lay] by simp
  have first: "\<forall>t\<in>set activeTasks.
            (\<forall>d\<in>set (dependencies t). d \<notin> task_id ` set activeTasks) \<longrightarrow>
            (\<exists>s\<in>set sequences. seq_index s = 1 \<and> t \<in> set (seq_tasks s))"
  proof (intro ballI impI)
    fix t assume t: "t \<in> set activeTasks"
      and absent: "\<forall>d\<in>set (dependencies t). d \<notin> task_id ` set activeTasks"
    have "depsSatisfied (map task_id activeTasks) [] t"
      using absent by (simp add: depsSatisfied_def)
    from layering_first_wave [OF t this lay]
    show "\<exists>s\<in>set sequences. seq_index s = 1 \<and> t \<in> set (seq_tasks s)" .
  qed
  from waves first show ?thesis by (rule conjI)
qed

lemmas sequence_eval =
  computeSequences_def depsSatisfied_def taskA_def taskB_def taskC_def taskD_def exampleTask_def

lemma computeSequences_example:
  "computeSequences [taskA, taskB, taskC, taskD]
     = ([], [\<lparr>seq_index = 1, seq_tasks = [taskA, taskD]\<rparr>,
             \<lparr>seq_index = 2, seq_tasks = [taskB]\<rparr>,
             \<lparr>seq_index = 3, seq_tasks = [taskC]\<rparr>])"
  by (simp add: computeSequences_def layering.simps depsSatisfied_def
        taskA_def taskB_def taskC_def taskD_def exampleTask_def)

theorem computeSequences_waves_witness:
  "computeSequences [taskA, taskB, taskC, taskD]
     = ([], [\<lparr>seq_index = 1, seq_tasks = [taskA, taskD]\<rparr>,
             \<lparr>seq_index = 2, seq_tasks = [taskB]\<rparr>,
             \<lparr>seq_index = 3, seq_tasks = [taskC]\<rparr>])
   \<and> (\<exists>s\<in>set [\<lparr>seq_index = 1, seq_tasks = [taskA, taskD]\<rparr>,
                  \<lparr>seq_index = 2, seq_tasks = [taskB]\<rparr>,
                  \<lparr>seq_index = 3, seq_tasks = [taskC]\<rparr>].
         seq_index s = 1 \<and> taskD \<in> set (seq_tasks s))
   \<and> (\<exists>s'\<in>set [\<lparr>seq_index = 1, seq_tasks = [taskA, taskD]\<rparr>,
                   \<lparr>seq_index = 2, seq_tasks = [taskB]\<rparr>,
                   \<lparr>seq_index = 3, seq_tasks = [taskC]\<rparr>].
         seq_index s' < 3 \<and> ''task-2'' \<in> task_id ` set (seq_tasks s'))"
proof -
  let ?seqs = "[\<lparr>seq_index = 1, seq_tasks = [taskA, taskD]\<rparr>,
                \<lparr>seq_index = 2, seq_tasks = [taskB]\<rparr>,
                \<lparr>seq_index = 3, seq_tasks = [taskC]\<rparr>]"
  let ?third = "\<lparr>seq_index = 3, seq_tasks = [taskC]\<rparr>"
  note waves = computeSequences_waves [OF computeSequences_example]
  have absent: "\<forall>d\<in>set (dependencies taskD). d \<notin> task_id ` set [taskA, taskB, taskC, taskD]"
    by (simp add: taskA_def taskB_def taskC_def taskD_def exampleTask_def)
  have inD: "taskD \<in> set [taskA, taskB, taskC, taskD]" by simp
  have w1: "\<exists>s\<in>set ?seqs. seq_index s = 1 \<and> taskD \<in> set (seq_tasks s)"
    by (rule waves [THEN conjunct2, THEN bspec, OF inD, THEN mp, OF absent])
  have in3: "?third \<in> set ?seqs" by simp
  have inC: "taskC \<in> set (seq_tasks ?third)" by simp
  have dep: "''task-2'' \<in> set (dependencies taskC)" by (simp add: taskC_def)
  have act: "''task-2'' \<in> task_id ` set [taskA, taskB, taskC, taskD]"
    by (simp add: taskB_def exampleTask_def)
  have w2: "\<exists>s'\<in>set ?seqs. seq_index s' < seq_index ?third \<and> ''task-2'' \<in> task_id ` set (seq_tasks s')"
    by (rule waves [THEN conjunct1, THEN bspec, OF in3, THEN bspec, OF inC, THEN bspec, OF dep, THEN mp, OF act])
  from computeSequences_example w1 w2 show ?thesis by simp
qed
section \<open>Properties of the ordinals\<close>



















lemmas ordinal_eval =
  applyUpdates_def resolveOrdinalConflicts_def assignSequential_def changedOnly_def Map_get_def Map_set_def
  movedOne_def duplicateTwo_def duplicateThree_def lateFour_def unplacedFive_def exampleTask_def Let_def



text \<open>The example of the specification: the ordinals 1000, 1000 become 1000, 2000.\<close>

lemma resolveOrdinalConflicts_spec_example:
  "map ordinal (applyUpdates (resolveOrdinalConflicts [duplicateTwo, duplicateThree] 1000 1000 True)
                  [duplicateTwo, duplicateThree]) = [Some 1000, Some 2000]"
  by (simp add: ordinal_eval)


section \<open>Properties of editing\<close>

subsection \<open>An unset flag\<close>

text \<open>
  When the flag \<^verbatim>\<open>mutated\<close> is not set after a step, the step has returned what it was
  given.
\<close>

lemma bindE_Inr: "bindE m f = Inr y \<Longrightarrow> \<exists>x. m = Inr x \<and> f x = Inr y"
  by (cases m) (auto simp: bindE_def)

lemma applyStringField_unflagged:
  "\<not> snd (applyStringField given current assign ed) \<Longrightarrow> applyStringField given current assign ed = ed"
  by (auto simp: applyStringField_def split: option.splits if_splits)

lemma applyTitle_unflagged: "applyTitle input ed = Inr ed' \<Longrightarrow> \<not> snd ed' \<Longrightarrow> ed' = ed"
  by (auto simp: applyTitle_def split: option.splits if_splits)

lemma applyStatus_unflagged: "applyStatus env input ed = Inr ed' \<Longrightarrow> \<not> snd ed' \<Longrightarrow> ed' = ed"
  by (auto simp: applyStatus_def bindE_def split: option.splits if_splits sum.splits)

lemma applyPriority_unflagged: "applyPriority input ed = Inr ed' \<Longrightarrow> \<not> snd ed' \<Longrightarrow> ed' = ed"
  by (auto simp: applyPriority_def bindE_def split: option.splits if_splits sum.splits)

lemma applyMilestone_unflagged: "\<not> snd (applyMilestone input ed) \<Longrightarrow> applyMilestone input ed = ed"
  by (auto simp: applyMilestone_def Let_def split: option.splits if_splits)

lemma applyOrdinal_unflagged: "applyOrdinal input ed = Inr ed' \<Longrightarrow> \<not> snd ed' \<Longrightarrow> ed' = ed"
  by (auto simp: applyOrdinal_def split: option.splits if_splits JsNumber.splits)

lemma applyAssignee_unflagged: "\<not> snd (applyAssignee env input ed) \<Longrightarrow> applyAssignee env input ed = ed"
  by (auto simp: applyAssignee_def Let_def split: option.splits if_splits)

lemma applyHistory_unflagged: "\<not> snd (applyHistory input ed) \<Longrightarrow> applyHistory input ed = ed"
  by (auto simp: applyHistory_def split: option.splits)

lemma addLabelsLoop_unflagged:
  "addLabelsLoop xs cur m = (cur', False) \<Longrightarrow> cur' = cur \<and> \<not> m"
proof (induction xs arbitrary: cur m)
  case Nil
  then show ?case by simp
next
  case (Cons x xs)
  show ?case
  proof (cases "toLowerCase x \<notin> set (map toLowerCase cur)")
    case True
    then have "addLabelsLoop xs (cur @ [x]) True = (cur', False)" using Cons.prems by simp
    from Cons.IH [OF this] show ?thesis by simp
  next
    case False
    then have "addLabelsLoop xs cur m = (cur', False)" using Cons.prems by simp
    from Cons.IH [OF this] show ?thesis .
  qed
qed

lemma addDependenciesLoop_unflagged:
  "addDependenciesLoop xs cur m = (cur', False) \<Longrightarrow> cur' = cur \<and> \<not> m"
proof (induction xs arbitrary: cur m)
  case Nil
  then show ?case by simp
next
  case (Cons x xs)
  show ?case
  proof (cases "x \<notin> set cur")
    case True
    then have "addDependenciesLoop xs (cur @ [x]) True = (cur', False)" using Cons.prems by simp
    from Cons.IH [OF this] show ?thesis by simp
  next
    case False
    then have "addDependenciesLoop xs cur m = (cur', False)" using Cons.prems by simp
    from Cons.IH [OF this] show ?thesis .
  qed
qed

lemma toggleLoop_unflagged:
  "toggleLoop ks b cs m miss = (cs', False, miss') \<Longrightarrow> cs' = cs \<and> \<not> m"
proof (induction ks arbitrary: cs m miss)
  case Nil
  then show ?case by simp
next
  case (Cons k ks)
  show ?case
  proof (cases "List.find (\<lambda>c. ac_index c = k) cs")
    case None
    then have "toggleLoop ks b cs m (miss @ [k]) = (cs', False, miss')" using Cons.prems by simp
    from Cons.IH [OF this] show ?thesis .
  next
    case (Some c)
    show ?thesis
    proof (cases "ac_checked c \<noteq> b")
      case True
      then have "toggleLoop ks b (setChecked k b cs) True miss = (cs', False, miss')"
        using Cons.prems Some by simp
      from Cons.IH [OF this] show ?thesis by simp
    next
      case False
      then have "toggleLoop ks b cs m miss = (cs', False, miss')" using Cons.prems Some by simp
      from Cons.IH [OF this] show ?thesis .
    qed
  qed
qed

lemma toggleCriteria_unflagged:
  "toggleCriteria ks b st = Inr st' \<Longrightarrow> \<not> snd st' \<Longrightarrow> st' = st"
  by (cases st) (auto simp: toggleCriteria_def split: prod.splits if_splits dest: toggleLoop_unflagged)

lemma removeCriteria_unflagged:
  "removeCriteria ks st = Inr st' \<Longrightarrow> \<not> snd st' \<Longrightarrow> st' = st"
  by (auto simp: removeCriteria_def Let_def split: if_splits)

lemma addCriteria_unflagged: "\<not> snd (addCriteria given st) \<Longrightarrow> addCriteria given st = st"
  by (auto simp: addCriteria_def Let_def split: if_splits)

lemma applyAcceptanceCriteria_unflagged:
  assumes "applyAcceptanceCriteria input ed = Inr ed'" and "\<not> snd ed'"
  shows "ed' = ((fst ed)\<lparr>acceptanceCriteriaItems := Some (orNil (acceptanceCriteriaItems (fst ed)))\<rparr>, False)
         \<and> \<not> snd ed"
proof -
  let ?st0 = "(orNil (acceptanceCriteriaItems (fst ed)), snd ed)"
  let ?st1 = "(case in_acceptanceCriteria input of None \<Rightarrow> ?st0 | Some given \<Rightarrow> (sanitizeCriteria given, True))"
  let ?st2 = "addCriteria (in_addAcceptanceCriteria input) ?st1"
  from assms(1) obtain st3 where s3: "removeCriteria (in_removeAcceptanceCriteria input) ?st2 = Inr st3"
    and r3: "bindE (toggleCriteria (in_checkAcceptanceCriteria input) True st3)
              (\<lambda>st4. bindE (toggleCriteria (in_uncheckAcceptanceCriteria input) False st4)
                 (\<lambda>st5. Inr ((fst ed)\<lparr>acceptanceCriteriaItems := Some (fst st5)\<rparr>, snd st5))) = Inr ed'"
    unfolding applyAcceptanceCriteria_def Let_def by (blast dest: bindE_Inr)
  from r3 obtain st4 where s4: "toggleCriteria (in_checkAcceptanceCriteria input) True st3 = Inr st4"
    and r4: "bindE (toggleCriteria (in_uncheckAcceptanceCriteria input) False st4)
                 (\<lambda>st5. Inr ((fst ed)\<lparr>acceptanceCriteriaItems := Some (fst st5)\<rparr>, snd st5)) = Inr ed'"
    by (blast dest: bindE_Inr)
  from r4 obtain st5 where s5: "toggleCriteria (in_uncheckAcceptanceCriteria input) False st4 = Inr st5"
    and r5: "ed' = ((fst ed)\<lparr>acceptanceCriteriaItems := Some (fst st5)\<rparr>, snd st5)"
    by (auto dest!: bindE_Inr)
  have f5: "\<not> snd st5" using assms(2) r5 by simp
  have e4: "st5 = st4" using toggleCriteria_unflagged [OF s5 f5] .
  have e3: "st4 = st3" using toggleCriteria_unflagged [OF s4] f5 e4 by simp
  have e2: "st3 = ?st2" using removeCriteria_unflagged [OF s3] f5 e4 e3 by simp
  have f2: "\<not> snd ?st2" using f5 e4 e3 e2 by simp
  have e1: "?st2 = ?st1" using addCriteria_unflagged [OF f2] .
  have f1: "\<not> snd ?st1" using f2 e1 by simp
  then have e0: "?st1 = ?st0" by (cases "in_acceptanceCriteria input") auto
  have "st5 = ?st0" using e4 e3 e2 e1 e0 by simp
  then show ?thesis using r5 f5 by simp
qed


lemma resolveLabelChanges_unflagged:
  assumes sound: "\<forall>xs ys. ext_stringArraysEqual env xs ys \<longrightarrow> xs = ys"
    and flag: "\<not> snd (resolveLabelChanges env input ed)"
  shows "resolveLabelChanges env input ed = ed"
proof -
  define ed1 where "ed1 = (case in_labels input of
                   None \<Rightarrow> ed
                 | Some given \<Rightarrow>
                     if \<not> ext_stringArraysEqual env (orNil (ext_normalizeStringList env (Some given))) (labels (fst ed))
                     then ((fst ed)\<lparr>labels := orNil (ext_normalizeStringList env (Some given))\<rparr>, True)
                     else ed)"
  define c1 where "c1 = (case in_labels input of
                              None \<Rightarrow> labels (fst ed)
                            | Some given \<Rightarrow> orNil (ext_normalizeStringList env (Some given)))"
  define add where "add = orNil (ext_normalizeStringList env (in_addLabels input))"
  define p2 where "p2 = (if add \<noteq> [] then addLabelsLoop add c1 (snd ed1) else (c1, snd ed1))"
  define ed2 where "ed2 = (if add \<noteq> [] then ((fst ed1)\<lparr>labels := fst p2\<rparr>, snd p2) else ed1)"
  define rem where "rem = orNil (ext_normalizeStringList env (in_removeLabels input))"
  define filtered where "filtered = filter (\<lambda>label. toLowerCase label \<notin> set (map toLowerCase rem)) (fst p2)"
  define cond where "cond = (rem \<noteq> [] \<and> \<not> ext_stringArraysEqual env filtered (fst p2))"
  have unfold: "resolveLabelChanges env input ed
      = (if cond then ((fst ed2)\<lparr>labels := filtered\<rparr>, True) else ed2)"
    unfolding cond_def filtered_def rem_def ed2_def p2_def add_def c1_def ed1_def
    by (simp add: resolveLabelChanges_def Let_def split_beta)
  have "\<not> cond" using flag unfolding unfold by (cases cond) simp_all
  then have r2: "resolveLabelChanges env input ed = ed2" unfolding unfold by simp
  then have f2: "\<not> snd ed2" using flag by simp
  have f1: "\<not> snd ed1 \<and> fst p2 = c1"
  proof (cases "add \<noteq> []")
    case True
    then have "snd (addLabelsLoop add c1 (snd ed1)) = False" using f2 by (simp add: ed2_def p2_def)
    then have "addLabelsLoop add c1 (snd ed1) = (fst (addLabelsLoop add c1 (snd ed1)), False)"
      by (metis prod.collapse)
    note u = addLabelsLoop_unflagged [OF this]
    have a: "fst (addLabelsLoop add c1 (snd ed1)) = c1" by (rule u [THEN conjunct1])
    have b: "\<not> snd ed1" by (rule u [THEN conjunct2])
    have "fst p2 = fst (addLabelsLoop add c1 (snd ed1))" using True by (simp add: p2_def)
    with a b show ?thesis by simp
  next
    case False
    then show ?thesis using f2 by (simp add: ed2_def p2_def)
  qed
  have e1: "ed1 = ed \<and> c1 = labels (fst ed)"
  proof (cases "in_labels input")
    case None
    then show ?thesis by (simp add: ed1_def c1_def)
  next
    case (Some given)
    have eq: "ext_stringArraysEqual env (orNil (ext_normalizeStringList env (Some given))) (labels (fst ed))"
      using f1 Some by (auto simp: ed1_def split: if_splits)
    then have "orNil (ext_normalizeStringList env (Some given)) = labels (fst ed)" using sound by blast
    then show ?thesis using eq Some by (simp add: ed1_def c1_def)
  qed
  have "ed2 = ed"
  proof (cases "add \<noteq> []")
    case True
    then have "ed2 = ((fst ed1)\<lparr>labels := fst p2\<rparr>, snd p2)" by (simp add: ed2_def)
    moreover have "snd p2 = False" using f2 True by (simp add: ed2_def)
    moreover have "snd ed = False" using f1 e1 by simp
    ultimately show ?thesis using f1 e1 by (cases ed) simp
  next
    case False
    then show ?thesis using e1 by (simp add: ed2_def)
  qed
  then show ?thesis using r2 by simp
qed

lemma validDependencies_cases:
  "validDependencies env n = Inr v \<Longrightarrow> v = fst (ext_validateDependencies env n)"
  by (auto simp: validDependencies_def split: if_splits)

lemma resolveDependencies_unflagged:
  assumes sound: "\<forall>xs ys. ext_stringArraysEqual env xs ys \<longrightarrow> xs = ys"
    and res: "resolveDependencies env input ed = Inr ed'" and flag: "\<not> snd ed'"
  shows "ed' = ed"
proof -
  define first where "first = (case in_dependencies input of
              None \<Rightarrow> Inr (dependencies (fst ed), snd ed)
            | Some given \<Rightarrow>
                bindE (validDependencies env (ext_normalizeDependencies env (Some given)))
                  (\<lambda>valid. if \<not> ext_stringArraysEqual env valid (dependencies (fst ed))
                            then Inr (valid, True)
                            else Inr (dependencies (fst ed), snd ed)))"
  define second :: "string list \<Rightarrow> bool \<Rightarrow> error + string list \<times> bool" where "second = (\<lambda>c1 m1.
          (if orNil (in_addDependencies input) \<noteq> []
                 then bindE (validDependencies env (ext_normalizeDependencies env (in_addDependencies input)))
                        (\<lambda>valid. Inr (addDependenciesLoop valid c1 m1))
                 else Inr (c1, m1)))"
  define third :: "string list \<Rightarrow> bool \<Rightarrow> error + Task \<times> bool" where "third = (\<lambda>c2 m2.
               (let filtered = filter (\<lambda>dep. dep \<notin> set (ext_normalizeDependencies env (in_removeDependencies input)))
                                 c2
                in if orNil (in_removeDependencies input) \<noteq> []
                      \<and> \<not> ext_stringArraysEqual env filtered c2
                   then Inr ((fst ed)\<lparr>dependencies := filtered\<rparr>, True)
                   else Inr ((fst ed)\<lparr>dependencies := c2\<rparr>, m2)))"
  have unfold: "resolveDependencies env input ed
      = bindE first (\<lambda>(c1, m1). bindE (second c1 m1) (\<lambda>(c2, m2). third c2 m2))"
    unfolding first_def second_def third_def by (simp add: resolveDependencies_def)
  from res [unfolded unfold] obtain p1 where s1: "first = Inr p1"
    and r1: "(case p1 of (c1, m1) \<Rightarrow> bindE (second c1 m1) (\<lambda>(c2, m2). third c2 m2)) = Inr ed'"
    by (blast dest: bindE_Inr)
  obtain c1 m1 where p1: "p1 = (c1, m1)" by (cases p1)
  have "bindE (second c1 m1) (\<lambda>(c2, m2). third c2 m2) = Inr ed'" using r1 p1 by simp
  then obtain p2 where s2: "second c1 m1 = Inr p2"
    and r2: "(case p2 of (c2, m2) \<Rightarrow> third c2 m2) = Inr ed'"
    by (blast dest: bindE_Inr)
  obtain c2 m2 where p2: "p2 = (c2, m2)" by (cases p2)
  have t: "third c2 m2 = Inr ed'" using r2 p2 by simp
  have last: "ed' = ((fst ed)\<lparr>dependencies := c2\<rparr>, m2) \<and> \<not> m2"
    using t flag by (auto simp: third_def Let_def split: if_splits)
  have mid: "c2 = c1 \<and> \<not> m1"
  proof (cases "orNil (in_addDependencies input) \<noteq> []")
    case True
    then obtain valid where "addDependenciesLoop valid c1 m1 = (c2, m2)"
      using s2 p2 by (auto simp: second_def dest!: bindE_Inr)
    then have "addDependenciesLoop valid c1 m1 = (c2, False)" using last by simp
    from addDependenciesLoop_unflagged [OF this] show ?thesis .
  next
    case False
    then show ?thesis using s2 p2 last by (simp add: second_def)
  qed
  have start: "c1 = dependencies (fst ed) \<and> \<not> snd ed"
  proof (cases "in_dependencies input")
    case None
    then show ?thesis using s1 p1 mid by (simp add: first_def)
  next
    case (Some given)
    then show ?thesis using s1 p1 mid by (auto simp: first_def dest!: bindE_Inr split: if_splits)
  qed
  show ?thesis using last mid start by (cases ed) simp
qed

lemma applySection_unflagged:
  assumes "\<not> snd (applySection clear given appends current assign ed)"
  shows "applySection clear given appends current assign ed = ed"
proof -
  let ?ed1 = "(if clear = Some True \<and> current (fst ed) \<noteq> None then (assign None (fst ed), True) else ed)"
  let ?ed2 = "applyStringField given current (\<lambda>nxt. assign (Some nxt)) ?ed1"
  have unfold: "applySection clear given appends current assign ed
      = (if sanitizeAppendInput appends \<noteq> [] \<and> snd (appendBlock (current (fst ?ed2)) (sanitizeAppendInput appends))
         then (assign (fst (appendBlock (current (fst ?ed2)) (sanitizeAppendInput appends))) (fst ?ed2), True)
         else ?ed2)"
    by (simp add: applySection_def Let_def)
  have r2: "applySection clear given appends current assign ed = ?ed2"
    using assms unfolding unfold by (auto split: if_splits)
  then have "\<not> snd ?ed2" using assms by simp
  from applyStringField_unflagged [OF this] have e2: "?ed2 = ?ed1" .
  then have "\<not> snd ?ed1" using \<open>\<not> snd ?ed2\<close> by simp
  then have "?ed1 = ed" by (auto split: if_splits)
  then show ?thesis using r2 e2 by simp
qed


lemma editTaskFields_unflagged:
  assumes sound: "\<forall>xs ys. ext_stringArraysEqual env xs ys \<longrightarrow> xs = ys"
    and run: "editTaskFields env input (task0, False) = Inr (task, False)"
  shows "task = task0\<lparr>acceptanceCriteriaItems := Some (orNil (acceptanceCriteriaItems task0))\<rparr>"
proof -
  define descr where "descr = applyStringField (in_description input) description (\<lambda>nxt t. t\<lparr>description := Some nxt\<rparr>)"
  define planStep where "planStep = applySection (in_clearImplementationPlan input)
                                          (in_implementationPlan input) (in_appendImplementationPlan input)
                                          implementationPlan (\<lambda>v t. t\<lparr>implementationPlan := v\<rparr>)"
  define notesStep where "notesStep = applySection (in_clearImplementationNotes input)
                                       (in_implementationNotes input) (in_appendImplementationNotes input)
                                       implementationNotes (\<lambda>v t. t\<lparr>implementationNotes := v\<rparr>)"
  define bn where "bn = applyStringField (in_branchName input) branchName (\<lambda>nxt t. t\<lparr>branchName := Some nxt\<rparr>)"
  define gt where "gt = applyStringField (in_gitTag input) gitTag (\<lambda>nxt t. t\<lparr>gitTag := Some nxt\<rparr>)"
  define pr where "pr = applyStringField (in_prNumber input) prNumber (\<lambda>nxt t. t\<lparr>prNumber := Some nxt\<rparr>)"
  have unfold: "editTaskFields env input ed0 =
     bindE (applyTitle input ed0)
       (\<lambda>ed1. bindE (applyStatus env input (descr ed1))
          (\<lambda>ed2. bindE (applyPriority input ed2)
             (\<lambda>ed3. bindE (applyOrdinal input (applyMilestone input ed3))
                (\<lambda>ed4. bindE (resolveDependencies env input
                                 (resolveLabelChanges env input (applyAssignee env input ed4)))
                   (\<lambda>ed5. bindE (applyAcceptanceCriteria input (notesStep (planStep ed5)))
                      (\<lambda>ed6. Inr (applyHistory input (pr (gt (bn ed6))))))))))" for ed0
    unfolding descr_def planStep_def notesStep_def bn_def gt_def pr_def by (simp add: editTaskFields_def)
  from run [unfolded unfold] obtain ed1 where t1: "applyTitle input (task0, False) = Inr ed1"
    and r1: "bindE (applyStatus env input (descr ed1))
          (\<lambda>ed2. bindE (applyPriority input ed2)
             (\<lambda>ed3. bindE (applyOrdinal input (applyMilestone input ed3))
                (\<lambda>ed4. bindE (resolveDependencies env input
                                 (resolveLabelChanges env input (applyAssignee env input ed4)))
                   (\<lambda>ed5. bindE (applyAcceptanceCriteria input (notesStep (planStep ed5)))
                      (\<lambda>ed6. Inr (applyHistory input (pr (gt (bn ed6))))))))) = Inr (task, False)"
    by (blast dest: bindE_Inr)
  from r1 obtain ed2 where t2: "applyStatus env input (descr ed1) = Inr ed2"
    and r2: "bindE (applyPriority input ed2)
             (\<lambda>ed3. bindE (applyOrdinal input (applyMilestone input ed3))
                (\<lambda>ed4. bindE (resolveDependencies env input
                                 (resolveLabelChanges env input (applyAssignee env input ed4)))
                   (\<lambda>ed5. bindE (applyAcceptanceCriteria input (notesStep (planStep ed5)))
                      (\<lambda>ed6. Inr (applyHistory input (pr (gt (bn ed6)))))))) = Inr (task, False)"
    by (blast dest: bindE_Inr)
  from r2 obtain ed3 where t3: "applyPriority input ed2 = Inr ed3"
    and r3: "bindE (applyOrdinal input (applyMilestone input ed3))
                (\<lambda>ed4. bindE (resolveDependencies env input
                                 (resolveLabelChanges env input (applyAssignee env input ed4)))
                   (\<lambda>ed5. bindE (applyAcceptanceCriteria input (notesStep (planStep ed5)))
                      (\<lambda>ed6. Inr (applyHistory input (pr (gt (bn ed6))))))) = Inr (task, False)"
    by (blast dest: bindE_Inr)
  from r3 obtain ed4 where t4: "applyOrdinal input (applyMilestone input ed3) = Inr ed4"
    and r4: "bindE (resolveDependencies env input
                                 (resolveLabelChanges env input (applyAssignee env input ed4)))
                   (\<lambda>ed5. bindE (applyAcceptanceCriteria input (notesStep (planStep ed5)))
                      (\<lambda>ed6. Inr (applyHistory input (pr (gt (bn ed6)))))) = Inr (task, False)"
    by (blast dest: bindE_Inr)
  from r4 obtain ed5 where t5: "resolveDependencies env input
                                 (resolveLabelChanges env input (applyAssignee env input ed4)) = Inr ed5"
    and r5: "bindE (applyAcceptanceCriteria input (notesStep (planStep ed5)))
                      (\<lambda>ed6. Inr (applyHistory input (pr (gt (bn ed6))))) = Inr (task, False)"
    by (blast dest: bindE_Inr)
  from r5 obtain ed6 where t6: "applyAcceptanceCriteria input (notesStep (planStep ed5)) = Inr ed6"
    and r6: "applyHistory input (pr (gt (bn ed6))) = (task, False)"
    by (auto dest!: bindE_Inr)
  have "\<not> snd (applyHistory input (pr (gt (bn ed6))))" using r6 by simp
  from applyHistory_unflagged [OF this] r6 have h3: "pr (gt (bn ed6)) = (task, False)" by simp
  then have "\<not> snd (pr (gt (bn ed6)))" by simp
  from applyStringField_unflagged [OF this [unfolded pr_def]] h3 have h2: "gt (bn ed6) = (task, False)"
    by (simp add: pr_def)
  then have "\<not> snd (gt (bn ed6))" by simp
  from applyStringField_unflagged [OF this [unfolded gt_def]] h2 have h1: "bn ed6 = (task, False)"
    by (simp add: gt_def)
  then have "\<not> snd (bn ed6)" by simp
  from applyStringField_unflagged [OF this [unfolded bn_def]] h1 have e6: "ed6 = (task, False)"
    by (simp add: bn_def)
  then have f6: "\<not> snd ed6" by simp
  note ac = applyAcceptanceCriteria_unflagged [OF t6 f6]
  have ac1: "ed6 = ((fst (notesStep (planStep ed5)))\<lparr>acceptanceCriteriaItems :=
                      Some (orNil (acceptanceCriteriaItems (fst (notesStep (planStep ed5)))))\<rparr>, False)"
    by (rule ac [THEN conjunct1])
  have fn: "\<not> snd (notesStep (planStep ed5))" by (rule ac [THEN conjunct2])
  from applySection_unflagged [OF fn [unfolded notesStep_def]] have n: "notesStep (planStep ed5) = planStep ed5"
    by (simp add: notesStep_def)
  then have "\<not> snd (planStep ed5)" using fn by simp
  from applySection_unflagged [OF this [unfolded planStep_def]] have p: "planStep ed5 = ed5"
    by (simp add: planStep_def)
  have f5: "\<not> snd ed5" using fn n p by simp
  from resolveDependencies_unflagged [OF sound t5 f5]
  have d: "ed5 = resolveLabelChanges env input (applyAssignee env input ed4)" .
  then have "\<not> snd (resolveLabelChanges env input (applyAssignee env input ed4))" using f5 by simp
  from resolveLabelChanges_unflagged [OF sound this]
  have l: "resolveLabelChanges env input (applyAssignee env input ed4) = applyAssignee env input ed4" .
  then have "\<not> snd (applyAssignee env input ed4)" using f5 d by simp
  from applyAssignee_unflagged [OF this] have a: "applyAssignee env input ed4 = ed4" .
  have f4: "\<not> snd ed4" using f5 d l a by simp
  from applyOrdinal_unflagged [OF t4 f4] have o: "ed4 = applyMilestone input ed3" .
  then have "\<not> snd (applyMilestone input ed3)" using f4 by simp
  from applyMilestone_unflagged [OF this] have m: "applyMilestone input ed3 = ed3" .
  have f3: "\<not> snd ed3" using f4 o m by simp
  from applyPriority_unflagged [OF t3 f3] have pq: "ed3 = ed2" .
  have f2: "\<not> snd ed2" using f3 pq by simp
  from applyStatus_unflagged [OF t2 f2] have st: "ed2 = descr ed1" .
  then have "\<not> snd (descr ed1)" using f2 by simp
  from applyStringField_unflagged [OF this [unfolded descr_def]] have ds: "descr ed1 = ed1"
    by (simp add: descr_def)
  have f1: "\<not> snd ed1" using f2 st ds by simp
  from applyTitle_unflagged [OF t1 f1] have ti: "ed1 = (task0, False)" .
  have "ed5 = (task0, False)" using d l a o m pq st ds ti by simp
  then have "notesStep (planStep ed5) = (task0, False)" using n p by simp
  then show ?thesis using ac1 e6 by simp
qed

text \<open>
  So a call that ends with the flag unset returns the loaded task and leaves the state as
  it was. \<^verbatim>\<open>stringArraysEqual\<close> is taken to hold of equal lists only.
\<close>

lemma updateTaskFromInput_unflagged:
  assumes "files w taskId = Some task0"
    and "\<forall>xs ys. ext_stringArraysEqual env xs ys \<longrightarrow> xs = ys"
    and "editTaskFields env input (task0, False) = Inr (task, False)"
  shows "updateTaskFromInput env taskId input autoCommitArg w = (Inr task, w)
       \<and> task = task0\<lparr>acceptanceCriteriaItems := Some (orNil (acceptanceCriteriaItems task0))\<rparr>"
  using assms(1,3) editTaskFields_unflagged [OF assms(2,3)]
  by (simp add: updateTaskFromInput_def)

subsection \<open>An edit that names the values of the task\<close>

text \<open>
  Every step compares the value asked for with the value of the task: when the two are
  the same, the step returns the task and the flag as they were.
\<close>

lemma applyStringField_same:
  "sameString given (current t) \<Longrightarrow> applyStringField given current assign (t, False) = (t, False)"
  by (cases given) (simp_all add: sameString_def applyStringField_def)

lemma applyTitle_same: "sameTitle input t \<Longrightarrow> applyTitle input (t, False) = Inr (t, False)"
  by (cases "in_title input") (simp_all add: sameTitle_def applyTitle_def)

lemma applyStatus_same: "sameStatus env input t \<Longrightarrow> applyStatus env input (t, False) = Inr (t, False)"
  by (cases "in_status input") (simp_all add: sameStatus_def applyStatus_def bindE_def)

lemma applyPriority_same: "samePriority input t \<Longrightarrow> applyPriority input (t, False) = Inr (t, False)"
  by (cases "in_priority input") (simp_all add: samePriority_def applyPriority_def bindE_def)

lemma applyMilestone_same: "sameMilestone input t \<Longrightarrow> applyMilestone input (t, False) = (t, False)"
proof (cases "in_milestone input")
  case None
  then show ?thesis by (simp add: applyMilestone_def)
next
  case (Some given)
  assume same: "sameMilestone input t"
  show ?thesis
  proof (cases given)
    case None
    then show ?thesis using Some same by (simp add: sameMilestone_def applyMilestone_def)
  next
    case (Some m)
    then show ?thesis using \<open>in_milestone input = Some given\<close> same
      by (simp add: sameMilestone_def applyMilestone_def)
  qed
qed

lemma applyOrdinal_same: "sameOrdinal input t \<Longrightarrow> applyOrdinal input (t, False) = Inr (t, False)"
proof (cases "in_ordinal input")
  case None
  then show ?thesis by (simp add: applyOrdinal_def)
next
  case (Some given)
  assume same: "sameOrdinal input t"
  show ?thesis
  proof (cases given)
    case NaN
    then show ?thesis using Some same by (simp add: sameOrdinal_def)
  next
    case (Num k)
    then show ?thesis using Some same by (simp add: sameOrdinal_def applyOrdinal_def)
  qed
qed

lemma applyAssignee_same:
  "\<forall>xs. ext_stringArraysEqual env xs xs \<Longrightarrow> sameAssignee env input t
   \<Longrightarrow> applyAssignee env input (t, False) = (t, False)"
  by (cases "in_assignee input") (simp_all add: sameAssignee_def applyAssignee_def Let_def)

lemma applyHistory_same: "in_addToHistory input = None \<Longrightarrow> applyHistory input ed = ed"
  by (simp add: applyHistory_def)

lemma addLabelsLoop_present:
  "list_all (\<lambda>label. toLowerCase label \<in> set (map toLowerCase cur)) xs \<Longrightarrow> addLabelsLoop xs cur m = (cur, m)"
  by (induction xs) simp_all

lemma addDependenciesLoop_present:
  "list_all (\<lambda>dep. dep \<in> set cur) xs \<Longrightarrow> addDependenciesLoop xs cur m = (cur, m)"
  by (induction xs) simp_all

lemma filter_all: "list_all P xs \<Longrightarrow> filter P xs = xs"
  by (induction xs) simp_all

lemma toggleLoop_checked:
  "list_all (\<lambda>k. case List.find (\<lambda>c. ac_index c = k) cs of None \<Rightarrow> False | Some criterion \<Rightarrow> ac_checked criterion) ks
   \<Longrightarrow> toggleLoop ks True cs m miss = (cs, m, miss)"
proof (induction ks)
  case Nil
  then show ?case by simp
next
  case (Cons k ks)
  then obtain c where "List.find (\<lambda>c. ac_index c = k) cs = Some c" "ac_checked c"
    by (cases "List.find (\<lambda>c. ac_index c = k) cs") simp_all
  then show ?case using Cons by simp
qed

lemma toggleLoop_unchecked:
  "list_all (\<lambda>k. case List.find (\<lambda>c. ac_index c = k) cs of None \<Rightarrow> False | Some criterion \<Rightarrow> \<not> ac_checked criterion) ks
   \<Longrightarrow> toggleLoop ks False cs m miss = (cs, m, miss)"
proof (induction ks)
  case Nil
  then show ?case by simp
next
  case (Cons k ks)
  then obtain c where "List.find (\<lambda>c. ac_index c = k) cs = Some c" "\<not> ac_checked c"
    by (cases "List.find (\<lambda>c. ac_index c = k) cs") simp_all
  then show ?case using Cons by simp
qed

lemma bindE_Inr_eq: "bindE (Inr x) f = f x"
  by (simp add: bindE_def)

lemma resolveLabelChanges_same:
  assumes refl: "\<forall>xs. ext_stringArraysEqual env xs xs" and same: "sameLabels env input t"
  shows "resolveLabelChanges env input (t, False) = (t, False)"
proof -
  have given: "(case in_labels input of
                  None \<Rightarrow> True
                | Some given \<Rightarrow> orNil (ext_normalizeStringList env (Some given)) = labels t)"
    and add: "list_all (\<lambda>label. toLowerCase label \<in> set (map toLowerCase (labels t)))
                (orNil (ext_normalizeStringList env (in_addLabels input)))"
    and remove: "list_all (\<lambda>label. toLowerCase label
                            \<notin> set (map toLowerCase (orNil (ext_normalizeStringList env (in_removeLabels input)))))
                   (labels t)"
    using same by (simp_all add: sameLabels_def)
  have loop: "addLabelsLoop (orNil (ext_normalizeStringList env (in_addLabels input))) (labels t) False
                = (labels t, False)"
    using add by (rule addLabelsLoop_present)
  have kept: "filter (\<lambda>label. toLowerCase label
                            \<notin> set (map toLowerCase (orNil (ext_normalizeStringList env (in_removeLabels input)))))
                (labels t) = labels t"
    using remove by (rule filter_all)
  show ?thesis
  proof (cases "in_labels input")
    case None
    then show ?thesis using refl by (simp add: resolveLabelChanges_def Let_def loop kept del: set_map)
  next
    case (Some g)
    then have "orNil (ext_normalizeStringList env (Some g)) = labels t" using given by simp
    then show ?thesis using Some refl by (simp add: resolveLabelChanges_def Let_def loop kept del: set_map)
  qed
qed

lemma resolveDependencies_same:
  assumes refl: "\<forall>xs. ext_stringArraysEqual env xs xs" and same: "sameDependencies env input t"
  shows "resolveDependencies env input (t, False) = Inr (t, False)"
proof -
  have given: "(case in_dependencies input of
         None \<Rightarrow> True
       | Some given \<Rightarrow>
           ext_validateDependencies env (ext_normalizeDependencies env (Some given)) = (dependencies t, []))"
    and add: "orNil (in_addDependencies input) = []
           \<or> snd (ext_validateDependencies env (ext_normalizeDependencies env (in_addDependencies input))) = []
             \<and> list_all (\<lambda>dep. dep \<in> set (dependencies t))
                  (fst (ext_validateDependencies env (ext_normalizeDependencies env (in_addDependencies input))))"
    and remove: "orNil (in_removeDependencies input) = []
           \<or> list_all (\<lambda>dep. dep \<notin> set (ext_normalizeDependencies env (in_removeDependencies input)))
                (dependencies t)"
    using same by (simp_all add: sameDependencies_def)
  have first: "(case in_dependencies input of
              None \<Rightarrow> Inr (dependencies t, False)
            | Some given \<Rightarrow>
                bindE (validDependencies env (ext_normalizeDependencies env (Some given)))
                  (\<lambda>valid. if \<not> ext_stringArraysEqual env valid (dependencies t)
                            then Inr (valid, True)
                            else Inr (dependencies t, False))) = Inr (dependencies t, False)"
  proof (cases "in_dependencies input")
    case None
    then show ?thesis by simp
  next
    case (Some g)
    then have "ext_validateDependencies env (ext_normalizeDependencies env (Some g)) = (dependencies t, [])"
      using given by simp
    then show ?thesis using Some refl by (simp add: validDependencies_def bindE_def)
  qed
  have second: "(if orNil (in_addDependencies input) \<noteq> []
                 then bindE (validDependencies env (ext_normalizeDependencies env (in_addDependencies input)))
                        (\<lambda>valid. Inr (addDependenciesLoop valid (dependencies t) False))
                 else Inr (dependencies t, False)) = Inr (dependencies t, False)"
  proof (cases "orNil (in_addDependencies input) = []")
    case True
    then show ?thesis by simp
  next
    case False
    then have v: "snd (ext_validateDependencies env (ext_normalizeDependencies env (in_addDependencies input))) = []"
      and p: "list_all (\<lambda>dep. dep \<in> set (dependencies t))
                  (fst (ext_validateDependencies env (ext_normalizeDependencies env (in_addDependencies input))))"
      using add by simp_all
    from p have "addDependenciesLoop
                   (fst (ext_validateDependencies env (ext_normalizeDependencies env (in_addDependencies input))))
                   (dependencies t) False = (dependencies t, False)"
      by (rule addDependenciesLoop_present)
    then show ?thesis using False v by (simp add: validDependencies_def bindE_def)
  qed
  show ?thesis
  proof (cases "orNil (in_removeDependencies input) = []")
    case True
    then show ?thesis
      unfolding resolveDependencies_def fst_conv snd_conv first
      by (simp add: bindE_Inr_eq second)
  next
    case False
    then have "list_all (\<lambda>dep. dep \<notin> set (ext_normalizeDependencies env (in_removeDependencies input)))
                 (dependencies t)"
      using remove by simp
    then have kept: "filter (\<lambda>dep. dep \<notin> set (ext_normalizeDependencies env (in_removeDependencies input)))
                (dependencies t) = dependencies t"
      by (rule filter_all)
    show ?thesis
      unfolding resolveDependencies_def fst_conv snd_conv first
      using refl by (simp add: bindE_Inr_eq second kept)
  qed
qed

lemma applySection_same:
  assumes "sameSection clear given appends (current t)"
  shows "applySection clear given appends current assign (t, False) = (t, False)"
proof -
  have c: "clear \<noteq> Some True \<or> current t = None" and g: "sameString given (current t)"
    and a: "sanitizeAppendInput appends = []"
    using assms by (simp_all add: sameSection_def)
  have nc: "\<not> (clear = Some True \<and> current (fst (t, False)) \<noteq> None)" using c by auto
  have e2: "applyStringField given current (\<lambda>nxt. assign (Some nxt)) (t, False) = (t, False)"
    using g by (rule applyStringField_same)
  show ?thesis
    unfolding applySection_def Let_def if_not_P [OF nc] e2 a by simp
qed

lemma applyAcceptanceCriteria_same:
  assumes "sameCriteria input t"
  shows "applyAcceptanceCriteria input (t, False)
           = Inr (t\<lparr>acceptanceCriteriaItems := Some (orNil (acceptanceCriteriaItems t))\<rparr>, False)"
proof -
  let ?cs = "orNil (acceptanceCriteriaItems t)"
  have r: "in_acceptanceCriteria input = None"
    and a: "filter (\<lambda>s. s \<noteq> []) (map additionText (orNil (in_addAcceptanceCriteria input))) = []"
    and d: "orNil (in_removeAcceptanceCriteria input) = []"
    and c: "list_all (\<lambda>k. case List.find (\<lambda>c. ac_index c = k) ?cs of
                         None \<Rightarrow> False
                       | Some criterion \<Rightarrow> ac_checked criterion)
           (orNil (in_checkAcceptanceCriteria input))"
    and u: "list_all (\<lambda>k. case List.find (\<lambda>c. ac_index c = k) ?cs of
                         None \<Rightarrow> False
                       | Some criterion \<Rightarrow> \<not> ac_checked criterion)
           (orNil (in_uncheckAcceptanceCriteria input))"
    using assms by (simp_all add: sameCriteria_def)
  have s2: "addCriteria (in_addAcceptanceCriteria input) (?cs, False) = (?cs, False)"
    using a by (simp add: addCriteria_def)
  have s3: "removeCriteria (in_removeAcceptanceCriteria input) (?cs, False) = Inr (?cs, False)"
    using d by (simp add: removeCriteria_def)
  have "toggleLoop (orNil (in_checkAcceptanceCriteria input)) True ?cs False [] = (?cs, False, [])"
    using c by (rule toggleLoop_checked)
  then have s4: "toggleCriteria (in_checkAcceptanceCriteria input) True (?cs, False) = Inr (?cs, False)"
    by (simp add: toggleCriteria_def)
  have "toggleLoop (orNil (in_uncheckAcceptanceCriteria input)) False ?cs False [] = (?cs, False, [])"
    using u by (rule toggleLoop_unchecked)
  then have s5: "toggleCriteria (in_uncheckAcceptanceCriteria input) False (?cs, False) = Inr (?cs, False)"
    by (simp add: toggleCriteria_def)
  show ?thesis
    by (simp add: applyAcceptanceCriteria_def r s2 s3 s4 s5 bindE_def)
qed

lemma editTaskFields_same:
  assumes refl: "\<forall>xs. ext_stringArraysEqual env xs xs" and same: "namesCurrentValues env input t"
  shows "editTaskFields env input (t, False)
           = Inr (t\<lparr>acceptanceCriteriaItems := Some (orNil (acceptanceCriteriaItems t))\<rparr>, False)"
proof -
  let ?t = "t\<lparr>acceptanceCriteriaItems := Some (orNil (acceptanceCriteriaItems t))\<rparr>"
  note n = same [unfolded namesCurrentValues_def]
  have s1: "applyTitle input (t, False) = Inr (t, False)"
    using n by (intro applyTitle_same) simp
  have s2: "applyStringField (in_description input) description (\<lambda>nxt t. t\<lparr>description := Some nxt\<rparr>) (t, False)
              = (t, False)"
    using n by (intro applyStringField_same) simp
  have s3: "applyStatus env input (t, False) = Inr (t, False)"
    using n by (intro applyStatus_same) simp
  have s4: "applyPriority input (t, False) = Inr (t, False)"
    using n by (intro applyPriority_same) simp
  have s5: "applyMilestone input (t, False) = (t, False)"
    using n by (intro applyMilestone_same) simp
  have s6: "applyOrdinal input (t, False) = Inr (t, False)"
    using n by (intro applyOrdinal_same) simp
  have s7: "applyAssignee env input (t, False) = (t, False)"
    using n by (intro applyAssignee_same [OF refl]) simp
  have s8: "resolveLabelChanges env input (t, False) = (t, False)"
    using n by (intro resolveLabelChanges_same [OF refl]) simp
  have s9: "resolveDependencies env input (t, False) = Inr (t, False)"
    using n by (intro resolveDependencies_same [OF refl]) simp
  have s10: "applySection (in_clearImplementationPlan input) (in_implementationPlan input)
               (in_appendImplementationPlan input) implementationPlan (\<lambda>v t. t\<lparr>implementationPlan := v\<rparr>)
               (t, False) = (t, False)"
    using n by (intro applySection_same) simp
  have s11: "applySection (in_clearImplementationNotes input) (in_implementationNotes input)
               (in_appendImplementationNotes input) implementationNotes (\<lambda>v t. t\<lparr>implementationNotes := v\<rparr>)
               (t, False) = (t, False)"
    using n by (intro applySection_same) simp
  have s12: "applyAcceptanceCriteria input (t, False) = Inr (?t, False)"
    using n by (intro applyAcceptanceCriteria_same) simp
  have s13: "applyStringField (in_branchName input) branchName (\<lambda>nxt t. t\<lparr>branchName := Some nxt\<rparr>) (?t, False)
              = (?t, False)"
    using n by (intro applyStringField_same) simp
  have s14: "applyStringField (in_gitTag input) gitTag (\<lambda>nxt t. t\<lparr>gitTag := Some nxt\<rparr>) (?t, False)
              = (?t, False)"
    using n by (intro applyStringField_same) simp
  have s15: "applyStringField (in_prNumber input) prNumber (\<lambda>nxt t. t\<lparr>prNumber := Some nxt\<rparr>) (?t, False)
              = (?t, False)"
    using n by (intro applyStringField_same) simp
  have s16: "applyHistory input (?t, False) = (?t, False)"
    using n by (intro applyHistory_same) simp
  show ?thesis
    unfolding editTaskFields_def
    by (simp only: s1 s2 s3 s4 s5 s6 s7 s8 s9 s10 s11 s12 s13 s14 s15 s16 bindE_def sum.case)
qed

subsection \<open>Edits without a change\<close>

lemmas edit_eval =
  editTaskFields_def bindE_def applyTitle_def applyStringField_def applyStatus_def applyPriority_def
  applyMilestone_def applyOrdinal_def applyAssignee_def resolveLabelChanges_def resolveDependencies_def
  applySection_def sanitizeAppendInput_def applyAcceptanceCriteria_def sanitizeCriteria_def
  addCriteria_def removeCriteria_def toggleCriteria_def applyHistory_def orNil_def orEmpty_def
  trim_def isSpace_def exampleEnv_def givenList_def sameList_def givenDependencies_def allValid_def
  emptyInput_def exampleTask_def

lemma updateTask_example:
  "updateTask exampleEnv criteriaTask None criteriaWorld
     = (criteriaTask\<lparr>updatedDate := Some ''2025-03-01 12:00''\<rparr>,
        criteriaWorld\<lparr>files := [''task-5'' \<mapsto> criteriaTask\<lparr>updatedDate := Some ''2025-03-01 12:00''\<rparr>],
                        saved := [criteriaTask\<lparr>updatedDate := Some ''2025-03-01 12:00''\<rparr>]\<rparr>)"
  by (simp add: updateTask_def saveTask_def shouldAutoCommit_def Let_def exampleEnv_def keepTask_def
        criteriaWorld_def criteriaTask_def exampleTask_def)

text \<open>
  Claim C10, as stated, fails at two edits that change no field of the loaded task. The
  first sets the acceptance criteria of \<^verbatim>\<open>task-5\<close> to the one criterion that the task
  has: the branch for \<^verbatim>\<open>input.acceptanceCriteria\<close> sets the flag without a comparison.
  The second adds a label and removes it again: each of the two steps changes the labels,
  and the flag stays set when the second step has undone the first. In both cases the
  steps return the task as it was loaded, and the task is saved with a new
  \<^verbatim>\<open>updatedDate\<close>.
\<close>

theorem updateTaskFromInput_no_change_counterexample:
  "editTaskFields exampleEnv sameCriteriaInput (criteriaTask, False) = Inr (criteriaTask, True)
   \<and> updateTaskFromInput exampleEnv ''task-5'' sameCriteriaInput None criteriaWorld
       = (Inr (criteriaTask\<lparr>updatedDate := Some ''2025-03-01 12:00''\<rparr>),
          criteriaWorld\<lparr>files := [''task-5'' \<mapsto> criteriaTask\<lparr>updatedDate := Some ''2025-03-01 12:00''\<rparr>],
                          saved := [criteriaTask\<lparr>updatedDate := Some ''2025-03-01 12:00''\<rparr>]\<rparr>)
   \<and> editTaskFields exampleEnv addRemoveLabelInput (criteriaTask, False) = Inr (criteriaTask, True)
   \<and> updateTaskFromInput exampleEnv ''task-5'' addRemoveLabelInput None criteriaWorld
       = (Inr (criteriaTask\<lparr>updatedDate := Some ''2025-03-01 12:00''\<rparr>),
          criteriaWorld\<lparr>files := [''task-5'' \<mapsto> criteriaTask\<lparr>updatedDate := Some ''2025-03-01 12:00''\<rparr>],
                          saved := [criteriaTask\<lparr>updatedDate := Some ''2025-03-01 12:00''\<rparr>]\<rparr>)"
proof -
  have e1: "editTaskFields exampleEnv sameCriteriaInput (criteriaTask, False) = Inr (criteriaTask, True)"
    by (simp add: edit_eval sameCriteriaInput_def criteriaTask_def)
  have e2: "editTaskFields exampleEnv addRemoveLabelInput (criteriaTask, False) = Inr (criteriaTask, True)"
    by (simp add: edit_eval addRemoveLabelInput_def criteriaTask_def toLowerCase_def)
  have f: "files criteriaWorld ''task-5'' = Some criteriaTask" by (simp add: criteriaWorld_def)
  show ?thesis
    by (simp add: updateTaskFromInput_def e1 e2 updateTask_example f)
qed

text \<open>
  Claim C10, amended. When the input names only values that the loaded task has
  (\<open>namesCurrentValues\<close>: every field mentioned already has the value asked for, as the
  function normalizes it; labels and dependencies to add are present, those to remove are
  absent; criteria to check are checked, those to uncheck are unchecked; nothing is
  appended, and the input replaces, adds and removes no acceptance criteria and brings no
  history entry), the call returns the loaded task without a write: the state is the one
  before the call, so no file is saved, nothing is committed and no callback runs, and
  the task returned is the loaded task, field by field (with \<^verbatim>\<open>updatedDate\<close> as loaded,
  and the acceptance criteria as the list that was loaded, or the empty list when there
  was none). \<^verbatim>\<open>stringArraysEqual\<close> is taken to hold of every list and itself.
\<close>

theorem updateTaskFromInput_current_values_frame:
  assumes "files w taskId = Some task0"
    and "\<forall>xs. ext_stringArraysEqual env xs xs"
    and "namesCurrentValues env input task0"
  shows "updateTaskFromInput env taskId input autoCommitArg w
           = (Inr (task0\<lparr>acceptanceCriteriaItems := Some (orNil (acceptanceCriteriaItems task0))\<rparr>), w)"
  using assms(1) editTaskFields_same [OF assms(2,3)]
  by (simp add: updateTaskFromInput_def)

theorem updateTaskFromInput_current_values_frame_witness:
  "updateTaskFromInput exampleEnv ''task-6'' sameValuesInput None busyWorld = (Inr busyTask, busyWorld)"
proof -
  have l: "files busyWorld ''task-6'' = Some busyTask" by (simp add: busyWorld_def)
  have r: "\<forall>xs. ext_stringArraysEqual exampleEnv xs xs" by (simp add: exampleEnv_def sameList_def)
  have n: "namesCurrentValues exampleEnv sameValuesInput busyTask"
    by code_simp
  have "busyTask\<lparr>acceptanceCriteriaItems := Some (orNil (acceptanceCriteriaItems busyTask))\<rparr> = busyTask"
    by (simp add: busyTask_def orNil_def)
  with updateTaskFromInput_current_values_frame [OF l r n, of None] show ?thesis by simp
qed


end
